theory Spec2Isabelle
  imports Complex_Main "HOL-Library.Log_Nat" "HOL-Library.Multiset"
begin

section \<open>JavaScript numbers\<close>

text \<open>
  Every number of the program is an IEEE 754 binary64 value: the result of
  \<^verbatim>\<open>parseFloat\<close>, the accumulators of the \<^verbatim>\<open>reduce\<close> calls, the id counters of
  the store and the keys of its \<^verbatim>\<open>Map\<close>s. A finite double is kept as the rational
  it denotes; the two zeros are identified (no operation of the program tells them
  apart). Equality of this type is the \<^verbatim>\<open>SameValueZero\<close> comparison that
  \<^verbatim>\<open>Map\<close> uses for its keys.
\<close>

datatype number = Finite rat | PosInfinity | NegInfinity | NaN

text \<open>
  The binary exponent of a positive rational \<open>a\<close>, read off the bit lengths of its
  numerator and denominator: \<open>2 powi ilog2 a \<le> a < 2 powi (ilog2 a + 1)\<close>.
\<close>

definition ilog2 :: "rat \<Rightarrow> int" where
  "ilog2 a = (let (p, q) = quotient_of a; d = bitlen p - bitlen q
              in if 2 powi d \<le> a then d else d - 1)"

definition roundHalfEven :: "rat \<Rightarrow> int" where
  "roundHalfEven x =
     (let n = \<lfloor>x\<rfloor>; r = x - of_int n
      in if r < 1 / 2 then n else if 1 / 2 < r then n + 1
         else if even n then n else n + 1)"

text \<open>
  Rounding to the nearest double, ties to even: 53 bits of precision, subnormals below
  \<open>2 powi (- 1022)\<close>, overflow to infinity from \<open>2 powi 1024\<close>.
\<close>

definition roundToDouble :: "rat \<Rightarrow> number" where
  "roundToDouble x =
     (if x = 0 then Finite 0
      else let a = \<bar>x\<bar>;
               e = max (ilog2 a) (- 1022);
               ulp = 2 powi (e - 52);
               m = of_int (roundHalfEven (a / ulp)) * ulp
           in if 2 powi 1024 \<le> m then (if 0 < x then PosInfinity else NegInfinity)
              else Finite (sgn x * m))"

fun num_neg :: "number \<Rightarrow> number" where
  "num_neg (Finite a) = Finite (- a)"
| "num_neg PosInfinity = NegInfinity"
| "num_neg NegInfinity = PosInfinity"
| "num_neg NaN = NaN"

fun num_add :: "number \<Rightarrow> number \<Rightarrow> number" where
  "num_add (Finite a) (Finite b) = roundToDouble (a + b)"
| "num_add NaN _ = NaN"
| "num_add _ NaN = NaN"
| "num_add PosInfinity NegInfinity = NaN"
| "num_add NegInfinity PosInfinity = NaN"
| "num_add PosInfinity _ = PosInfinity"
| "num_add _ PosInfinity = PosInfinity"
| "num_add NegInfinity _ = NegInfinity"
| "num_add _ NegInfinity = NegInfinity"

definition num_sub :: "number \<Rightarrow> number \<Rightarrow> number" where
  "num_sub a b = num_add a (num_neg b)"

subsection \<open>\<^verbatim>\<open>parseFloat\<close>\<close>

text \<open>
  \<^verbatim>\<open>parseFloat\<close> skips leading white space, reads the longest prefix that is a
  decimal literal (sign, \<^verbatim>\<open>Infinity\<close> or digits with an optional fraction and
  exponent) and rounds its value to a double; without such a prefix the result is
  \<^verbatim>\<open>NaN\<close>. Strings are taken as sequences of 8-bit characters.
\<close>

definition isWhiteSpace :: "char \<Rightarrow> bool" where
  "isWhiteSpace c = ((of_char c :: nat) \<in> {9, 10, 11, 12, 13, 32, 160})"

definition isDigit :: "char \<Rightarrow> bool" where
  "isDigit c = (48 \<le> (of_char c :: nat) \<and> (of_char c :: nat) \<le> 57)"

definition digitsValue :: "string \<Rightarrow> int" where
  "digitsValue ds = foldl (\<lambda>n c. 10 * n + (of_char c - 48)) 0 ds"

fun signedDigits :: "string \<Rightarrow> int" where
  "signedDigits (c # r) =
     (if c = CHR ''-'' then - digitsValue (takeWhile isDigit r)
      else if c = CHR ''+'' then digitsValue (takeWhile isDigit r)
      else digitsValue (takeWhile isDigit (c # r)))"
| "signedDigits [] = 0"

fun hasExponentDigits :: "string \<Rightarrow> bool" where
  "hasExponentDigits (c # r) =
     (if c = CHR ''-'' \<or> c = CHR ''+'' then takeWhile isDigit r \<noteq> []
      else isDigit c)"
| "hasExponentDigits [] = False"

fun parseExponent :: "string \<Rightarrow> int" where
  "parseExponent (c # r) =
     (if (c = CHR ''e'' \<or> c = CHR ''E'') \<and> hasExponentDigits r then signedDigits r else 0)"
| "parseExponent [] = 0"

text \<open>The exact value of the unsigned decimal literal at the start of a string, if any.\<close>

definition literalValue :: "string \<Rightarrow> rat option" where
  "literalValue s =
     (let ip = takeWhile isDigit s;
          r1 = dropWhile isDigit s;
          fp = (case r1 of c # t \<Rightarrow> if c = CHR ''.'' then takeWhile isDigit t else []
                | [] \<Rightarrow> []);
          r2 = (case r1 of c # t \<Rightarrow> if c = CHR ''.'' then dropWhile isDigit t else r1
                | [] \<Rightarrow> [])
      in if ip = [] \<and> fp = [] then None
         else Some (of_int (digitsValue (ip @ fp))
                    * 10 powi (parseExponent r2 - int (length fp))))"

definition parseUnsigned :: "string \<Rightarrow> number" where
  "parseUnsigned s =
     (if take 8 s = ''Infinity'' then PosInfinity
      else case literalValue s of None \<Rightarrow> NaN | Some v \<Rightarrow> roundToDouble v)"

definition parseFloat :: "string \<Rightarrow> number" where
  "parseFloat s =
     (case dropWhile isWhiteSpace s of
        [] \<Rightarrow> NaN
      | c # r \<Rightarrow>
          if c = CHR ''-'' then num_neg (parseUnsigned r)
          else if c = CHR ''+'' then parseUnsigned r
          else parseUnsigned (c # r))"

section \<open>Data model\<close>

text \<open>
  \<^verbatim>\<open>shared/schema.ts\<close>: the insert types omit \<^verbatim>\<open>id\<close> and \<^verbatim>\<open>createdAt\<close>; the stored
  types add them. \<^verbatim>\<open>amount\<close> and \<^verbatim>\<open>paymentStatus\<close> are strings; the payment statuses
  of the data model are \<^verbatim>\<open>paid\<close> and \<^verbatim>\<open>unpaid\<close>. \<^verbatim>\<open>createdAt\<close> is a valid \<^verbatim>\<open>Date\<close>, kept
  as its time value in milliseconds since the epoch.
\<close>

record insertCustomer =
  name :: string
  goodsType :: string
  carCount :: number
  amount :: string
  paymentStatus :: string

record customer = insertCustomer +
  c_id :: number
  createdAt :: int

record insertExpense =
  description :: string
  e_amount :: string

record expense = insertExpense +
  e_id :: number
  e_createdAt :: int

text \<open>\<^verbatim>\<open>Partial<InsertCustomer>\<close>, \<^verbatim>\<open>Partial<InsertExpense>\<close>: each key present or absent.\<close>

record partialCustomer =
  u_name :: "string option"
  u_goodsType :: "string option"
  u_carCount :: "number option"
  u_amount :: "string option"
  u_paymentStatus :: "string option"

record partialExpense =
  u_description :: "string option"
  u_e_amount :: "string option"

section \<open>Keyed collections\<close>

text \<open>
  A \<^verbatim>\<open>Map\<close> and the own properties of a plain object both keep their entries in
  insertion order: an association list. Setting an existing key keeps its position, a
  new key goes to the end, deleting a key removes its entry.
\<close>

fun mapGet :: "('k \<times> 'v) list \<Rightarrow> 'k \<Rightarrow> 'v option" where
  "mapGet [] k = None"
| "mapGet ((k', v) # m) k = (if k' = k then Some v else mapGet m k)"

fun mapSet :: "'k \<Rightarrow> 'v \<Rightarrow> ('k \<times> 'v) list \<Rightarrow> ('k \<times> 'v) list" where
  "mapSet k v [] = [(k, v)]"
| "mapSet k v ((k', v') # m) = (if k' = k then (k, v) # m else (k', v') # mapSet k v m)"

definition mapDelete :: "'k \<Rightarrow> ('k \<times> 'v) list \<Rightarrow> ('k \<times> 'v) list" where
  "mapDelete k m = filter (\<lambda>p. fst p \<noteq> k) m"

definition mapHas :: "('k \<times> 'v) list \<Rightarrow> 'k \<Rightarrow> bool" where
  "mapHas m k = (mapGet m k \<noteq> None)"

definition mapValues :: "('k \<times> 'v) list \<Rightarrow> 'v list" where
  "mapValues m = map snd m"

section \<open>The record store (\<^verbatim>\<open>MemStorage\<close>)\<close>

record memStorage =
  customers :: "(number \<times> customer) list"
  expenses :: "(number \<times> expense) list"
  currentCustomerId :: number
  currentExpenseId :: number

definition newMemStorage :: memStorage where
  "newMemStorage =
     \<lparr>customers = [], expenses = [], currentCustomerId = Finite 1, currentExpenseId = Finite 1\<rparr>"

text \<open>The comparator \<^verbatim>\<open>b.createdAt - a.createdAt\<close> under the stable \<^verbatim>\<open>Array.prototype.sort\<close>.\<close>

definition getAllCustomers :: "memStorage \<Rightarrow> customer list" where
  "getAllCustomers s = sort_key (\<lambda>c. - createdAt c) (mapValues (customers s))"

definition getCustomer :: "number \<Rightarrow> memStorage \<Rightarrow> customer option" where
  "getCustomer i s = mapGet (customers s) i"

text \<open>\<open>now\<close> is the value of \<^verbatim>\<open>new Date()\<close> at the call.\<close>

definition createCustomer :: "insertCustomer \<Rightarrow> int \<Rightarrow> memStorage \<Rightarrow> customer \<times> memStorage" where
  "createCustomer ins now s =
     (let i = currentCustomerId s;
          c = \<lparr>name = name ins, goodsType = goodsType ins, carCount = carCount ins,
               amount = amount ins, paymentStatus = paymentStatus ins,
               c_id = i, createdAt = now\<rparr>
      in (c, s\<lparr>currentCustomerId := num_add i (Finite 1), customers := mapSet i c (customers s)\<rparr>))"

definition mergeCustomer :: "customer \<Rightarrow> partialCustomer \<Rightarrow> customer" where
  "mergeCustomer c u =
     c\<lparr>name := (case u_name u of Some v \<Rightarrow> v | None \<Rightarrow> name c),
       goodsType := (case u_goodsType u of Some v \<Rightarrow> v | None \<Rightarrow> goodsType c),
       carCount := (case u_carCount u of Some v \<Rightarrow> v | None \<Rightarrow> carCount c),
       amount := (case u_amount u of Some v \<Rightarrow> v | None \<Rightarrow> amount c),
       paymentStatus := (case u_paymentStatus u of Some v \<Rightarrow> v | None \<Rightarrow> paymentStatus c)\<rparr>"

definition updateCustomer :: "number \<Rightarrow> partialCustomer \<Rightarrow> memStorage \<Rightarrow> customer option \<times> memStorage" where
  "updateCustomer i updates s =
     (case mapGet (customers s) i of
        None \<Rightarrow> (None, s)
      | Some c \<Rightarrow>
          (let updatedCustomer = mergeCustomer c updates
           in (Some updatedCustomer, s\<lparr>customers := mapSet i updatedCustomer (customers s)\<rparr>)))"

definition deleteCustomer :: "number \<Rightarrow> memStorage \<Rightarrow> bool \<times> memStorage" where
  "deleteCustomer i s = (mapHas (customers s) i, s\<lparr>customers := mapDelete i (customers s)\<rparr>)"

definition getAllExpenses :: "memStorage \<Rightarrow> expense list" where
  "getAllExpenses s = sort_key (\<lambda>e. - e_createdAt e) (mapValues (expenses s))"

definition getExpense :: "number \<Rightarrow> memStorage \<Rightarrow> expense option" where
  "getExpense i s = mapGet (expenses s) i"

definition createExpense :: "insertExpense \<Rightarrow> int \<Rightarrow> memStorage \<Rightarrow> expense \<times> memStorage" where
  "createExpense ins now s =
     (let i = currentExpenseId s;
          e = \<lparr>description = description ins, e_amount = e_amount ins,
               e_id = i, e_createdAt = now\<rparr>
      in (e, s\<lparr>currentExpenseId := num_add i (Finite 1), expenses := mapSet i e (expenses s)\<rparr>))"

definition mergeExpense :: "expense \<Rightarrow> partialExpense \<Rightarrow> expense" where
  "mergeExpense e u =
     e\<lparr>description := (case u_description u of Some v \<Rightarrow> v | None \<Rightarrow> description e),
       e_amount := (case u_e_amount u of Some v \<Rightarrow> v | None \<Rightarrow> e_amount e)\<rparr>"

definition updateExpense :: "number \<Rightarrow> partialExpense \<Rightarrow> memStorage \<Rightarrow> expense option \<times> memStorage" where
  "updateExpense i updates s =
     (case mapGet (expenses s) i of
        None \<Rightarrow> (None, s)
      | Some e \<Rightarrow>
          (let updatedExpense = mergeExpense e updates
           in (Some updatedExpense, s\<lparr>expenses := mapSet i updatedExpense (expenses s)\<rparr>)))"

definition deleteExpense :: "number \<Rightarrow> memStorage \<Rightarrow> bool \<times> memStorage" where
  "deleteExpense i s = (mapHas (expenses s) i, s\<lparr>expenses := mapDelete i (expenses s)\<rparr>)"

definition clearAllData :: "memStorage \<Rightarrow> memStorage" where
  "clearAllData s =
     s\<lparr>customers := [], expenses := [], currentCustomerId := Finite 1, currentExpenseId := Finite 1\<rparr>"

text \<open>
  Every method stores a record under its own id, so every state the methods reach from
  \<open>newMemStorage\<close> satisfies \<open>storeInv\<close> (\<open>storeInv_new\<close>, \<open>storeInv_preserved\<close>).
\<close>

definition storeInv :: "memStorage \<Rightarrow> bool" where
  "storeInv s =
     (list_all (\<lambda>p. c_id (snd p) = fst p) (customers s) \<and>
      list_all (\<lambda>p. e_id (snd p) = fst p) (expenses s))"

section \<open>HTTP handlers (\<^verbatim>\<open>routes.ts\<close>)\<close>

text \<open>\<^verbatim>\<open>DELETE /api/customers/:id\<close> and \<^verbatim>\<open>DELETE /api/expenses/:id\<close>: the status code sent.\<close>

definition deleteCustomerRoute :: "number \<Rightarrow> memStorage \<Rightarrow> nat \<times> memStorage" where
  "deleteCustomerRoute i s =
     (let (deleted, s') = deleteCustomer i s in (if \<not> deleted then 404 else 200, s'))"

definition deleteExpenseRoute :: "number \<Rightarrow> memStorage \<Rightarrow> nat \<times> memStorage" where
  "deleteExpenseRoute i s =
     (let (deleted, s') = deleteExpense i s in (if \<not> deleted then 404 else 200, s'))"

text \<open>\<^verbatim>\<open>GET /api/summary\<close>: three \<^verbatim>\<open>reduce\<close> calls from \<^verbatim>\<open>0\<close> and one subtraction.\<close>

record summary =
  totalRevenue :: number
  totalExpenses :: number
  netTotal :: number
  totalCars :: number
  customerCount :: nat
  expenseCount :: nat

definition summaryOf :: "customer list \<Rightarrow> expense list \<Rightarrow> summary" where
  "summaryOf cs es =
     (let revenue = foldl (\<lambda>sum c. num_add sum (parseFloat (amount c))) (Finite 0) cs;
          spent = foldl (\<lambda>sum e. num_add sum (parseFloat (e_amount e))) (Finite 0) es;
          cars = foldl (\<lambda>sum c. num_add sum (carCount c)) (Finite 0) cs
      in \<lparr>totalRevenue = revenue, totalExpenses = spent, netTotal = num_sub revenue spent,
          totalCars = cars, customerCount = length cs, expenseCount = length es\<rparr>)"

definition getSummary :: "memStorage \<Rightarrow> summary" where
  "getSummary s = summaryOf (getAllCustomers s) (getAllExpenses s)"

section \<open>Grouping (\<^verbatim>\<open>home.tsx\<close>)\<close>

subsection \<open>Plain objects used as dictionaries\<close>

text \<open>
  The accumulators of the grouping \<^verbatim>\<open>reduce\<close> calls are object literals \<^verbatim>\<open>{}\<close>. Reading
  \<^verbatim>\<open>acc[key]\<close> finds an own property first and then the properties every object
  inherits from \<^verbatim>\<open>Object.prototype\<close>, which are all truthy. \<^verbatim>\<open>Object.values\<close> lists the
  own properties with the array-index keys first, in ascending numeric order, and then
  the other keys in insertion order.
\<close>

datatype jsError = TypeError

definition objectPrototypeKeys :: "string list" where
  "objectPrototypeKeys =
     [''constructor'', ''__defineGetter__'', ''__defineSetter__'', ''hasOwnProperty'',
      ''__lookupGetter__'', ''__lookupSetter__'', ''isPrototypeOf'', ''propertyIsEnumerable'',
      ''toString'', ''valueOf'', ''__proto__'', ''toLocaleString'']"

definition isArrayIndex :: "string \<Rightarrow> bool" where
  "isArrayIndex k =
     (k \<noteq> [] \<and> list_all isDigit k \<and> (k = ''0'' \<or> hd k \<noteq> CHR ''0'')
      \<and> digitsValue k < 4294967295)"

definition objectValues :: "(string \<times> 'v) list \<Rightarrow> 'v list" where
  "objectValues obj =
     map snd (sort_key (\<lambda>p. digitsValue (fst p)) (filter (\<lambda>p. isArrayIndex (fst p)) obj))
     @ map snd (filter (\<lambda>p. \<not> isArrayIndex (fst p)) obj)"

text \<open>\<^verbatim>\<open>reduce\<close> with a callback that may throw: the first exception ends the loop.\<close>

fun reduceE :: "('a \<Rightarrow> 'b \<Rightarrow> jsError + 'a) \<Rightarrow> 'a \<Rightarrow> 'b list \<Rightarrow> jsError + 'a" where
  "reduceE f acc [] = Inr acc"
| "reduceE f acc (x # xs) = (case f acc x of Inl e \<Rightarrow> Inl e | Inr acc' \<Rightarrow> reduceE f acc' xs)"

fun mapE :: "('a \<Rightarrow> jsError + 'b) \<Rightarrow> 'a list \<Rightarrow> jsError + 'b list" where
  "mapE f [] = Inr []"
| "mapE f (x # xs) =
     (case f x of Inl e \<Rightarrow> Inl e
      | Inr y \<Rightarrow> (case mapE f xs of Inl e \<Rightarrow> Inl e | Inr ys \<Rightarrow> Inr (y # ys)))"

subsection \<open>The daily-operations view\<close>

text \<open>
  \<^verbatim>\<open>formatDate\<close> renders the calendar day of a time value in the time zone of the host
  as \<^verbatim>\<open>DD/MM/YYYY\<close>. The zone is the function \<open>zone\<close> that gives, for an instant, the
  offset of local time from UTC at that instant, in milliseconds; it changes with
  daylight saving and with the rules of the zone. The model keeps the local day itself,
  as the number of days since the epoch; the rendered string is one-to-one with it (for
  the days of the common era, where the creation times of stored records lie), is never
  an array index and never a property of \<^verbatim>\<open>Object.prototype\<close>.
\<close>

definition formatDate :: "(int \<Rightarrow> int) \<Rightarrow> int \<Rightarrow> int" where
  "formatDate zone d = (d + zone d) div 86400000"

definition customersByDate :: "(int \<Rightarrow> int) \<Rightarrow> customer list \<Rightarrow> (int \<times> customer list) list" where
  "customersByDate zone cs =
     foldl (\<lambda>acc c.
              let dateKey = formatDate zone (createdAt c)
              in mapSet dateKey ((case mapGet acc dateKey of None \<Rightarrow> [] | Some l \<Rightarrow> l) @ [c]) acc)
           [] cs"

text \<open>
  The keys sorted by the comparator
  \<^verbatim>\<open>customersByDate[b][0].createdAt - customersByDate[a][0].createdAt\<close>, then
  \<^verbatim>\<open>slice(0, 3)\<close>. Every partition has a first element (\<open>customersByDate_nonempty\<close>).
\<close>

definition recentDates :: "(int \<Rightarrow> int) \<Rightarrow> customer list \<Rightarrow> int list" where
  "recentDates zone cs =
     take 3 (map fst (sort_key (\<lambda>p. - createdAt (hd (snd p))) (customersByDate zone cs)))"

record customerGroup =
  g_name :: string
  g_goodsType :: string
  g_totalCars :: number
  g_totalAmount :: number
  g_entries :: "customer list"
  g_allPaid :: bool

definition addToGroup :: "customerGroup \<Rightarrow> customer \<Rightarrow> customerGroup" where
  "addToGroup g c =
     g\<lparr>g_totalCars := num_add (g_totalCars g) (carCount c),
       g_totalAmount := num_add (g_totalAmount g) (parseFloat (amount c)),
       g_entries := g_entries g @ [c],
       g_allPaid := (if paymentStatus c = ''unpaid'' then False else g_allPaid g)\<rparr>"

text \<open>
  One step of the \<^verbatim>\<open>groupedByName\<close> reducer. For a name that \<^verbatim>\<open>Object.prototype\<close> defines,
  \<^verbatim>\<open>!acc[customer.name]\<close> is false, no group is created, and
  \<^verbatim>\<open>acc[customer.name].entries.push\<close> throws a \<^verbatim>\<open>TypeError\<close>.
\<close>

definition groupedByNameStep ::
  "(string \<times> customerGroup) list \<Rightarrow> customer \<Rightarrow> jsError + (string \<times> customerGroup) list" where
  "groupedByNameStep acc c =
     (case mapGet acc (name c) of
        Some g \<Rightarrow> Inr (mapSet (name c) (addToGroup g c) acc)
      | None \<Rightarrow>
          if name c \<in> set objectPrototypeKeys then Inl TypeError
          else Inr (mapSet (name c)
                 (addToGroup \<lparr>g_name = name c, g_goodsType = goodsType c, g_totalCars = Finite 0,
                              g_totalAmount = Finite 0, g_entries = [], g_allPaid = True\<rparr> c) acc))"

definition groupedByName :: "customer list \<Rightarrow> jsError + (string \<times> customerGroup) list" where
  "groupedByName dateCustomers = reduceE groupedByNameStep [] dateCustomers"

record dayView =
  dateKey :: int
  customerGroups :: "customerGroup list"
  totalDayAmount :: number

definition dayViewOf :: "int \<Rightarrow> customer list \<Rightarrow> jsError + dayView" where
  "dayViewOf k dateCustomers =
     (case groupedByName dateCustomers of
        Inl e \<Rightarrow> Inl e
      | Inr obj \<Rightarrow>
          (let groups = objectValues obj
           in Inr \<lparr>dateKey = k, customerGroups = groups,
                   totalDayAmount = foldl (\<lambda>sum g. num_add sum (g_totalAmount g)) (Finite 0) groups\<rparr>))"

definition dailyOperations :: "(int \<Rightarrow> int) \<Rightarrow> customer list \<Rightarrow> jsError + dayView list" where
  "dailyOperations zone cs =
     (let byDate = customersByDate zone cs
      in mapE (\<lambda>k. case mapGet byDate k of
                     None \<Rightarrow> Inl TypeError
                   | Some dateCustomers \<Rightarrow> dayViewOf k dateCustomers)
              (recentDates zone cs))"

text \<open>
  The same grouping over every date partition, without the \<^verbatim>\<open>slice\<close>, and the sum of
  the groups' \<^verbatim>\<open>totalAmount\<close> over all of them, day by day.
\<close>

definition allDayViews :: "(int \<Rightarrow> int) \<Rightarrow> customer list \<Rightarrow> jsError + dayView list" where
  "allDayViews zone cs = mapE (\<lambda>p. dayViewOf (fst p) (snd p)) (customersByDate zone cs)"

definition sumOfGroupTotals :: "(int \<Rightarrow> int) \<Rightarrow> customer list \<Rightarrow> jsError + number" where
  "sumOfGroupTotals zone cs =
     (case allDayViews zone cs of
        Inl e \<Rightarrow> Inl e
      | Inr days \<Rightarrow> Inr (foldl (\<lambda>sum d. num_add sum (totalDayAmount d)) (Finite 0) days))"

subsection \<open>The PDF report\<close>

record reportGroup =
  r_name :: string
  r_goodsType :: string
  r_totalCars :: number
  r_totalAmount :: number
  r_entries :: "customer list"

definition addToReportGroup :: "reportGroup \<Rightarrow> customer \<Rightarrow> reportGroup" where
  "addToReportGroup g c =
     g\<lparr>r_totalCars := num_add (r_totalCars g) (carCount c),
       r_totalAmount := num_add (r_totalAmount g) (parseFloat (amount c)),
       r_entries := r_entries g @ [c]\<rparr>"

definition groupedCustomersStep ::
  "(string \<times> reportGroup) list \<Rightarrow> customer \<Rightarrow> jsError + (string \<times> reportGroup) list" where
  "groupedCustomersStep acc c =
     (case mapGet acc (name c) of
        Some g \<Rightarrow> Inr (mapSet (name c) (addToReportGroup g c) acc)
      | None \<Rightarrow>
          if name c \<in> set objectPrototypeKeys then Inl TypeError
          else Inr (mapSet (name c)
                 (addToReportGroup \<lparr>r_name = name c, r_goodsType = goodsType c,
                                    r_totalCars = Finite 0, r_totalAmount = Finite 0,
                                    r_entries = []\<rparr> c) acc))"

text \<open>\<^verbatim>\<open>data.customers\<close> is the whole customer list of \<^verbatim>\<open>POST /api/generate-pdf\<close>.\<close>

definition groupedCustomers :: "customer list \<Rightarrow> jsError + (string \<times> reportGroup) list" where
  "groupedCustomers cs = reduceE groupedCustomersStep [] cs"

definition reportGroups :: "customer list \<Rightarrow> jsError + reportGroup list" where
  "reportGroups cs =
     (case groupedCustomers cs of Inl e \<Rightarrow> Inl e | Inr obj \<Rightarrow> Inr (objectValues obj))"

section \<open>Auxiliary notions for the statements\<close>

text \<open>
  A double that is a natural number, and its value. Sums of such doubles are exact as
  long as they stay within \<open>2 ^ 53\<close>.
\<close>

definition natValue :: "number \<Rightarrow> nat" where
  "natValue x = (case x of Finite a \<Rightarrow> nat \<lfloor>a\<rfloor> | _ \<Rightarrow> 0)"

definition isWhole :: "number \<Rightarrow> bool" where
  "isWhole x = (x = Finite (of_nat (natValue x)))"

text \<open>
  The group that the \<^verbatim>\<open>groupedByName\<close> reducer holds under a name after a list of
  customers, in closed form (\<open>groupedByName_get\<close>).
\<close>

definition groupOfName :: "string \<Rightarrow> customer list \<Rightarrow> customerGroup" where
  "groupOfName n cs =
     (let es = filter (\<lambda>c. name c = n) cs
      in \<lparr>g_name = n, g_goodsType = goodsType (hd es),
          g_totalCars = foldl (\<lambda>sum c. num_add sum (carCount c)) (Finite 0) es,
          g_totalAmount = foldl (\<lambda>sum c. num_add sum (parseFloat (amount c))) (Finite 0) es,
          g_entries = es,
          g_allPaid = list_all (\<lambda>c. paymentStatus c \<noteq> ''unpaid'') es\<rparr>)"

section \<open>Properties of the number model\<close>

lemma two_powi_pos: "(0::rat) < 2 powi e"
  by (simp add: zero_less_power_int)

lemma two_powi_less_iff: "(2::rat) powi a < 2 powi b \<longleftrightarrow> a < b"
proof
  assume "(2::rat) powi a < 2 powi b"
  show "a < b"
  proof (rule ccontr)
    assume "\<not> a < b"
    then have "b \<le> a" by simp
    then have "(2::rat) powi b \<le> 2 powi a" by (intro power_int_increasing) auto
    with \<open>(2::rat) powi a < 2 powi b\<close> show False by simp
  qed
next
  assume "a < b"
  then show "(2::rat) powi a < 2 powi b" by (intro power_int_strict_increasing) auto
qed

lemma two_powi_le_iff: "(2::rat) powi a \<le> 2 powi b \<longleftrightarrow> a \<le> b"
  using two_powi_less_iff[of b a] by (auto simp: not_less[symmetric])

lemma two_powi_Suc: "(2::rat) powi (e + 1) = 2 * 2 powi e"
  by (simp add: power_int_add)

lemma bitlen_rat_bounds:
  assumes "0 < p"
  shows "(2::rat) powi (bitlen p - 1) \<le> of_int p" and "of_int p < (2::rat) powi bitlen p"
proof -
  from assms have b1: "1 \<le> bitlen p"
    using bitlen_eq_zero_iff[of p] bitlen_nonneg[of p] by linarith
  from bitlen_bounds[OF assms]
  have lo: "2 ^ nat (bitlen p - 1) \<le> p" and hi: "p < 2 ^ nat (bitlen p)" by auto
  have "(of_int (2 ^ nat (bitlen p - 1)) :: rat) \<le> of_int p"
    using lo by (simp only: of_int_le_iff)
  then show "(2::rat) powi (bitlen p - 1) \<le> of_int p"
    using b1 by (simp add: power_int_def)
  have "(of_int p :: rat) < of_int (2 ^ nat (bitlen p))"
    using hi by (simp only: of_int_less_iff)
  then show "of_int p < (2::rat) powi bitlen p"
    using b1 by (simp add: power_int_def)
qed

lemma ilog2_bounds:
  assumes "0 < a"
  shows "2 powi ilog2 a \<le> a" and "a < 2 powi (ilog2 a + 1)"
proof -
  obtain p q where pq: "quotient_of a = (p, q)" by (cases "quotient_of a")
  have q: "0 < q" using quotient_of_denom_pos[OF pq] .
  have a: "a = of_int p / of_int q" using quotient_of_div[OF pq] .
  have p: "0 < p"
    using assms q unfolding a by (simp add: zero_less_divide_iff)
  define d where "d = bitlen p - bitlen q"
  have il: "ilog2 a = (if 2 powi d \<le> a then d else d - 1)"
    by (simp add: ilog2_def pq d_def)
  have qr: "(0::rat) < of_int q" using q by simp
  have "a < 2 powi bitlen p / of_int q"
    unfolding a using bitlen_rat_bounds(2)[OF p] qr by (simp add: divide_strict_right_mono)
  also have "\<dots> \<le> 2 powi bitlen p / 2 powi (bitlen q - 1)"
    using bitlen_rat_bounds(1)[OF q] two_powi_pos[of "bitlen q - 1"] two_powi_pos[of "bitlen p"]
    by (intro divide_left_mono) (auto simp: qr q intro!: mult_pos_pos)
  also have "\<dots> = 2 powi (bitlen p - (bitlen q - 1))"
    by (subst power_int_diff) auto
  also have "\<dots> = 2 powi (d + 1)"
    by (simp add: d_def algebra_simps)
  finally have up: "a < 2 powi (d + 1)" .
  have "(2::rat) powi (d - 1) = 2 powi (bitlen p - 1 - bitlen q)"
    by (rule arg_cong[where f = "\<lambda>e. 2 powi e"]) (simp add: d_def)
  also have "\<dots> = 2 powi (bitlen p - 1) / 2 powi bitlen q"
    by (subst power_int_diff) auto
  also have "\<dots> \<le> of_int p / 2 powi bitlen q"
    using bitlen_rat_bounds(1)[OF p] two_powi_pos[of "bitlen q"]
    by (simp add: divide_right_mono)
  also have "\<dots> \<le> a"
    unfolding a using bitlen_rat_bounds(2)[OF q] qr p
    by (intro divide_left_mono) (auto simp: two_powi_pos)
  finally have lo: "2 powi (d - 1) \<le> a" .
  show "2 powi ilog2 a \<le> a" using lo by (simp add: il)
  show "a < 2 powi (ilog2 a + 1)" using up by (auto simp: il)
qed

lemma ilog2_eqI:
  assumes "2 powi e \<le> a" "a < 2 powi (e + 1)"
  shows "ilog2 a = e"
proof -
  have a: "0 < a" using assms(1) two_powi_pos[of e] by linarith
  from ilog2_bounds[OF a] assms
  have "(2::rat) powi ilog2 a < 2 powi (e + 1)" "(2::rat) powi e < 2 powi (ilog2 a + 1)"
    by linarith+
  then show ?thesis by (simp add: two_powi_less_iff)
qed

lemma roundHalfEven_of_int: "roundHalfEven (of_int j) = j"
  by (simp add: roundHalfEven_def)

lemma floor_numeral_div_rat: "\<lfloor>(numeral a :: rat) / numeral b\<rfloor> = numeral a div numeral b"
  using floor_divide_of_int_eq[of "numeral a" "numeral b", where ?'a = rat] by simp

lemma roundToDouble_evalI:
  assumes "2 powi e \<le> \<bar>x\<bar>" "\<bar>x\<bar> < 2 powi (e + 1)" "- 1022 \<le> e"
    and "roundHalfEven (\<bar>x\<bar> / 2 powi (e - 52)) = n"
    and "of_int n * 2 powi (e - 52) < (2::rat) powi 1024"
    and "r = sgn x * (of_int n * 2 powi (e - 52))"
  shows "roundToDouble x = Finite r"
proof -
  have "0 < \<bar>x\<bar>" using assms(1) two_powi_pos[of e] by linarith
  then have x: "(x = 0) = False" by simp
  have e: "ilog2 \<bar>x\<bar> = e" using assms(1,2) by (rule ilog2_eqI)
  have m: "max e (- 1022) = e" using assms(3) by simp
  have nle: "(2 powi 1024 \<le> rat_of_int n * 2 powi (e - 52)) = False"
    using assms(5) by simp
  show ?thesis
    unfolding roundToDouble_def Let_def e m assms(4) x nle assms(6) by (simp only: if_False)
qed

lemma roundToDouble_of_int:
  assumes "\<bar>k\<bar> \<le> 2 ^ 53"
  shows "roundToDouble (of_int k) = Finite (of_int k)"
proof (cases "k = 0")
  case True
  then show ?thesis by (simp add: roundToDouble_def)
next
  case False
  define a :: rat where "a = \<bar>of_int k\<bar>"
  have a1: "1 \<le> a" using False unfolding a_def
    by (simp flip: of_int_abs)
  have a53: "a \<le> 2 ^ 53"
    using assms unfolding a_def by (simp flip: of_int_abs)
  define e where "e = ilog2 a"
  have a0: "0 < a" using a1 by simp
  note b = ilog2_bounds[OF a0, folded e_def]
  have "(2::rat) powi 0 < 2 powi (e + 1)" using b(2) a1 by simp
  then have e0: "0 \<le> e" by (simp only: two_powi_less_iff)
  have "(2::rat) powi e \<le> 2 powi 53" using b(1) a53 by simp
  then have e53: "e \<le> 53" by (simp only: two_powi_le_iff)
  define n where "n = roundHalfEven (a / 2 powi (e - 52))"
  have rh: "of_int n * 2 powi (e - 52) = a"
  proof (cases "e \<le> 52")
    case True
    have "2 powi (e - 52) = 1 / (2::rat) ^ nat (52 - e)"
      using True by (simp add: power_int_def inverse_eq_divide power_one_over[symmetric] del: power_one_over)
    then have ulp: "2 powi (e - 52) = 1 / (of_int (2 ^ nat (52 - e)) :: rat)" by simp
    have "a / 2 powi (e - 52) = of_int (\<bar>k\<bar> * 2 ^ nat (52 - e))"
      unfolding ulp a_def by simp
    then have "n = \<bar>k\<bar> * 2 ^ nat (52 - e)"
      unfolding n_def by (simp only: roundHalfEven_of_int)
    then show ?thesis unfolding ulp a_def by simp
  next
    case False
    with e53 have e: "e = 53" by simp
    have "a = 2 ^ 53" using b(1) a53 unfolding e by simp
    then show ?thesis unfolding n_def e using roundHalfEven_of_int[of "2 ^ 52"] by simp
  qed
  have "a < 2 powi 1024" using a53 by simp
  then have lt: "of_int n * 2 powi (e - 52) < (2::rat) powi 1024" by (simp only: rh)
  have r: "of_int k = sgn (of_int k :: rat) * (of_int n * 2 powi (e - 52))"
    unfolding rh a_def by (simp add: mult_sgn_abs)
  show ?thesis
    by (rule roundToDouble_evalI[where e = e and n = n])
      (use b e0 lt r in \<open>simp_all add: a_def n_def\<close>)
qed

lemma num_add_of_int:
  "\<bar>a + b\<bar> \<le> 2 ^ 53 \<Longrightarrow> num_add (Finite (of_int a)) (Finite (of_int b)) = Finite (of_int (a + b))"
  using roundToDouble_of_int[of "a + b"] by simp

lemma roundToDouble_numeral:
  "(numeral k :: int) \<le> 2 ^ 53 \<Longrightarrow> roundToDouble (numeral k) = Finite (numeral k)"
  using roundToDouble_of_int[of "numeral k"] by simp

lemma roundToDouble_one: "roundToDouble 1 = Finite 1"
  using roundToDouble_of_int[of 1] by simp

lemma roundToDouble_zero: "roundToDouble 0 = Finite 0"
  by (simp add: roundToDouble_def)

lemmas double_eval = roundToDouble_numeral roundToDouble_one roundToDouble_zero

subsection \<open>Evaluating \<^verbatim>\<open>parseFloat\<close> and sums of whole numbers\<close>

lemmas parse_eval = parseFloat_def parseUnsigned_def literalValue_def isWhiteSpace_def isDigit_def
  digitsValue_def Let_def

text \<open>
  The doubles next to 0.1, 0.2 and 0.3 and the rounded sums of them that the examples
  below meet: 0.1 + 0.2, 0.3 + 0.1, 0.4 + 0.2, 0.3 + 0.2 (exactly 1/2) and 0.5 + 0.1.
\<close>

lemma double_1_10: "roundToDouble (1 / 10) = Finite (3602879701896397 / 36028797018963968)"
  by (rule roundToDouble_evalI[where e = "- 4" and n = 7205759403792794])
    (simp_all add: roundHalfEven_def Let_def floor_numeral_div_rat)

lemma double_2_10: "roundToDouble (1 / 5) = Finite (3602879701896397 / 18014398509481984)"
  by (rule roundToDouble_evalI[where e = "- 3" and n = 7205759403792794])
    (simp_all add: roundHalfEven_def Let_def floor_numeral_div_rat)

lemma double_3_10: "roundToDouble (3 / 10) = Finite (5404319552844595 / 18014398509481984)"
  by (rule roundToDouble_evalI[where e = "- 2" and n = 5404319552844595])
    (simp_all add: roundHalfEven_def Let_def floor_numeral_div_rat)

lemma double_sum_01_02: "roundToDouble (10808639105689191 / 36028797018963968) = Finite (1351079888211149 / 4503599627370496)"
  by (rule roundToDouble_evalI[where e = "- 2" and n = 5404319552844596])
    (simp_all add: roundHalfEven_def Let_def floor_numeral_div_rat)

lemma double_id_03: "roundToDouble (5404319552844595 / 18014398509481984) = Finite (5404319552844595 / 18014398509481984)"
  by (rule roundToDouble_evalI[where e = "- 2" and n = 5404319552844595])
    (simp_all add: roundHalfEven_def Let_def floor_numeral_div_rat)

lemma double_id_01: "roundToDouble (3602879701896397 / 36028797018963968) = Finite (3602879701896397 / 36028797018963968)"
  by (rule roundToDouble_evalI[where e = "- 4" and n = 7205759403792794])
    (simp_all add: roundHalfEven_def Let_def floor_numeral_div_rat)

lemma double_sum_03_01: "roundToDouble (14411518807585587 / 36028797018963968) = Finite (3602879701896397 / 9007199254740992)"
  by (rule roundToDouble_evalI[where e = "- 2" and n = 7205759403792794])
    (simp_all add: roundHalfEven_def Let_def floor_numeral_div_rat)

lemma double_sum_04_02: "roundToDouble (10808639105689191 / 18014398509481984) = Finite (1351079888211149 / 2251799813685248)"
  by (rule roundToDouble_evalI[where e = "- 1" and n = 5404319552844596])
    (simp_all add: roundHalfEven_def Let_def floor_numeral_div_rat)

lemma double_half: "roundToDouble (1 / 2) = Finite (1 / 2)"
  by (rule roundToDouble_evalI[where e = "- 1" and n = 4503599627370496])
    (simp_all add: roundHalfEven_def Let_def floor_numeral_div_rat)

lemma double_sum_05_01: "roundToDouble (21617278211378381 / 36028797018963968) = Finite (5404319552844595 / 9007199254740992)"
  by (rule roundToDouble_evalI[where e = "- 1" and n = 5404319552844595])
    (simp_all add: roundHalfEven_def Let_def floor_numeral_div_rat)

lemma double_id_06: "roundToDouble (5404319552844595 / 9007199254740992) = Finite (5404319552844595 / 9007199254740992)"
  by (rule roundToDouble_evalI[where e = "- 1" and n = 5404319552844595])
    (simp_all add: roundHalfEven_def Let_def floor_numeral_div_rat)


lemmas double_dec = double_1_10 double_2_10 double_3_10 double_sum_01_02 double_id_03 double_id_01
  double_sum_03_01 double_sum_04_02 double_half double_sum_05_01 double_id_06

lemma literalValue_parseFloat:
  assumes "literalValue a = Some v"
  shows "parseFloat a = roundToDouble v"
proof (cases a)
  case Nil
  with assms show ?thesis by (simp add: literalValue_def)
next
  case (Cons c r)
  have c: "isDigit c \<or> c = CHR ''.''"
    using assms unfolding Cons literalValue_def Let_def
    by (auto split: if_splits)
  then have ws: "\<not> isWhiteSpace c" and sg: "c \<noteq> CHR ''-''" "c \<noteq> CHR ''+''" and i: "c \<noteq> CHR ''I''"
    by (auto simp: isDigit_def isWhiteSpace_def)
  have "take 8 a \<noteq> ''Infinity''" using i unfolding Cons by auto
  then show ?thesis
    using ws sg i assms unfolding Cons by (auto simp: parseFloat_def parseUnsigned_def)
qed

lemma isWhole_Finite_nat: "isWhole (Finite (of_nat n))"
  by (simp add: isWhole_def natValue_def)

lemma natValue_Finite_nat: "natValue (Finite (of_nat n)) = n"
  by (simp add: natValue_def)

lemma num_add_nat:
  assumes "a + b \<le> 2 ^ 53"
  shows "num_add (Finite (of_nat a)) (Finite (of_nat b)) = Finite (of_nat (a + b))"
proof -
  have "int (a + b) \<le> int (2 ^ 53)" using assms by (simp only: of_nat_le_iff)
  then have "\<bar>int a + int b\<bar> \<le> 2 ^ 53" by simp
  from num_add_of_int[OF this] show ?thesis by simp
qed

lemma foldl_num_add_whole:
  assumes "list_all isWhole xs" "r + sum_list (map natValue xs) \<le> 2 ^ 53"
  shows "foldl num_add (Finite (of_nat r)) xs = Finite (of_nat (r + sum_list (map natValue xs)))"
  using assms
proof (induction xs arbitrary: r)
  case Nil
  then show ?case by simp
next
  case (Cons x xs)
  from Cons.prems(1) have "isWhole x" and xs: "list_all isWhole xs"
    by simp_all
  then have x: "x = Finite (of_nat (natValue x))" by (simp add: isWhole_def)
  have "num_add (Finite (of_nat r)) x = Finite (of_nat (r + natValue x))"
    using Cons.prems(2) by (subst x, intro num_add_nat) simp
  moreover have "foldl num_add (Finite (of_nat (r + natValue x))) xs
      = Finite (of_nat (r + natValue x + sum_list (map natValue xs)))"
    using Cons.prems(2) by (intro Cons.IH xs) simp
  ultimately show ?case by (simp add: add.assoc)
qed

lemma sum_whole:
  assumes "list_all (\<lambda>x. isWhole (f x)) xs" "sum_list (map (\<lambda>x. natValue (f x)) xs) \<le> 2 ^ 53"
  shows "foldl (\<lambda>sum x. num_add sum (f x)) (Finite 0) xs
    = Finite (of_nat (sum_list (map (\<lambda>x. natValue (f x)) xs)))"
proof -
  have "foldl (\<lambda>sum x. num_add sum (f x)) (Finite 0) xs = foldl num_add (Finite (of_nat 0)) (map f xs)"
    by (simp add: foldl_map)
  also have "\<dots> = Finite (of_nat (0 + sum_list (map natValue (map f xs))))"
    using assms by (intro foldl_num_add_whole) (simp_all add: list_all_iff comp_def)
  finally show ?thesis by (simp add: comp_def)
qed

lemma literal_whole:
  assumes "literalValue a = Some (of_nat n)" "n \<le> 2 ^ 53"
  shows "parseFloat a = Finite (of_nat n)"
proof -
  have "int n \<le> int (2 ^ 53)" using assms(2) by (simp only: of_nat_le_iff)
  then have "\<bar>int n\<bar> \<le> 2 ^ 53" by simp
  from roundToDouble_of_int[OF this] literalValue_parseFloat[OF assms(1)]
  show ?thesis by simp
qed

section \<open>Properties of the record store\<close>

lemma mapGet_mapSet: "mapGet (mapSet k v m) k' = (if k' = k then Some v else mapGet m k')"
  by (induction m) auto

lemma mapGet_mapDelete: "mapGet (mapDelete k m) k' = (if k' = k then None else mapGet m k')"
  by (induction m) (auto simp: mapDelete_def)

lemma mapGet_None_iff: "mapGet m k = None \<longleftrightarrow> k \<notin> fst ` set m"
  by (induction m) (force split: if_splits)+

lemma mapGet_Some_mem: "mapGet m k = Some v \<Longrightarrow> (k, v) \<in> set m"
  by (induction m) (auto split: if_splits)

lemma mapDelete_absent: "mapGet m k = None \<Longrightarrow> mapDelete k m = m"
  by (induction m) (auto simp: mapDelete_def split: if_splits)

lemma set_mapSet: "set (mapSet k v m) \<subseteq> insert (k, v) (set m)"
  by (induction m) (auto split: if_splits)

lemma set_mapDelete_subset: "set (mapDelete k m) \<subseteq> set m"
  by (auto simp: mapDelete_def)

lemma list_all_mapSet: "list_all P m \<Longrightarrow> P (k, v) \<Longrightarrow> list_all P (mapSet k v m)"
  using set_mapSet[of k v m] by (auto simp: list_all_iff)

lemma list_all_mapDelete: "list_all P m \<Longrightarrow> list_all P (mapDelete k m)"
  by (auto simp: list_all_iff mapDelete_def)

lemma storeInv_new: "storeInv newMemStorage"
  by (simp add: storeInv_def newMemStorage_def)

lemma storeInv_preserved:
  assumes "storeInv s"
  shows "storeInv (snd (createCustomer ic t s))"
    and "storeInv (snd (updateCustomer i u s))"
    and "storeInv (snd (deleteCustomer i s))"
    and "storeInv (snd (createExpense ie t s))"
    and "storeInv (snd (updateExpense i w s))"
    and "storeInv (snd (deleteExpense i s))"
    and "storeInv (clearAllData s)"
proof -
  have c: "list_all (\<lambda>p. c_id (snd p) = fst p) (customers s)"
    and e: "list_all (\<lambda>p. e_id (snd p) = fst p) (expenses s)"
    using assms by (simp_all add: storeInv_def)
  show "storeInv (snd (createCustomer ic t s))"
    using c e by (simp add: storeInv_def createCustomer_def Let_def list_all_mapSet)
  show "storeInv (snd (createExpense ie t s))"
    using c e by (simp add: storeInv_def createExpense_def Let_def list_all_mapSet)
  show "storeInv (snd (deleteCustomer i s))"
    using c e by (simp add: storeInv_def deleteCustomer_def list_all_mapDelete)
  show "storeInv (snd (deleteExpense i s))"
    using c e by (simp add: storeInv_def deleteExpense_def list_all_mapDelete)
  show "storeInv (clearAllData s)"
    by (simp add: storeInv_def clearAllData_def)
  show "storeInv (snd (updateCustomer i u s))"
  proof (cases "mapGet (customers s) i")
    case None
    then show ?thesis using assms by (simp add: updateCustomer_def)
  next
    case (Some c0)
    from mapGet_Some_mem[OF Some] c have "c_id c0 = i" by (auto simp: list_all_iff)
    then show ?thesis
      using c e Some
      by (simp add: storeInv_def updateCustomer_def Let_def mergeCustomer_def list_all_mapSet)
  qed
  show "storeInv (snd (updateExpense i w s))"
  proof (cases "mapGet (expenses s) i")
    case None
    then show ?thesis using assms by (simp add: updateExpense_def)
  next
    case (Some e0)
    from mapGet_Some_mem[OF Some] e have "e_id e0 = i" by (auto simp: list_all_iff)
    then show ?thesis
      using c e Some
      by (simp add: storeInv_def updateExpense_def Let_def mergeExpense_def list_all_mapSet)
  qed
qed

lemma delete_after_create_customer:
  fixes ic t s
  assumes "storeInv s"
  defines "c \<equiv> fst (createCustomer ic t s)"
  defines "s1 \<equiv> snd (createCustomer ic t s)"
  defines "s2 \<equiv> snd (deleteCustomer (c_id c) s1)"
  shows "fst (deleteCustomer (c_id c) s1) \<and> c_id c \<notin> c_id ` set (getAllCustomers s2)
    \<and> \<not> fst (deleteCustomer (c_id c) s2) \<and> snd (deleteCustomer (c_id c) s2) = s2"
proof -
  have cs1: "customers s1 = mapSet (c_id c) c (customers s)"
    by (simp add: s1_def c_def createCustomer_def Let_def)
  have cs2: "customers s2 = mapDelete (c_id c) (customers s1)"
    by (simp add: s2_def deleteCustomer_def)
  have "storeInv s2"
    unfolding s2_def s1_def by (intro storeInv_preserved assms(1))
  then have inv2: "list_all (\<lambda>p. c_id (snd p) = fst p) (customers s2)"
    by (simp add: storeInv_def)
  have gone: "mapGet (customers s2) (c_id c) = None"
    by (simp add: cs2 mapGet_mapDelete)
  have "c_id c \<notin> c_id ` set (getAllCustomers s2)"
  proof
    assume "c_id c \<in> c_id ` set (getAllCustomers s2)"
    then obtain p where p: "p \<in> set (customers s2)" "c_id (snd p) = c_id c"
      by (auto simp: getAllCustomers_def mapValues_def)
    with inv2 have "fst p = c_id c" by (auto simp: list_all_iff)
    with p(1) gone show False unfolding mapGet_None_iff by (metis imageI)
  qed
  moreover have "fst (deleteCustomer (c_id c) s1)"
    by (simp add: deleteCustomer_def mapHas_def cs1 mapGet_mapSet)
  moreover have "\<not> fst (deleteCustomer (c_id c) s2)"
    by (simp add: deleteCustomer_def mapHas_def gone)
  moreover have "snd (deleteCustomer (c_id c) s2) = s2"
    by (simp add: deleteCustomer_def mapDelete_absent[OF gone])
  ultimately show ?thesis by simp
qed

lemma delete_after_create_expense:
  fixes ie t s
  assumes "storeInv s"
  defines "e \<equiv> fst (createExpense ie t s)"
  defines "s1 \<equiv> snd (createExpense ie t s)"
  defines "s2 \<equiv> snd (deleteExpense (e_id e) s1)"
  shows "fst (deleteExpense (e_id e) s1) \<and> e_id e \<notin> e_id ` set (getAllExpenses s2)
    \<and> \<not> fst (deleteExpense (e_id e) s2) \<and> snd (deleteExpense (e_id e) s2) = s2"
proof -
  have es1: "expenses s1 = mapSet (e_id e) e (expenses s)"
    by (simp add: s1_def e_def createExpense_def Let_def)
  have es2: "expenses s2 = mapDelete (e_id e) (expenses s1)"
    by (simp add: s2_def deleteExpense_def)
  have "storeInv s2"
    unfolding s2_def s1_def by (intro storeInv_preserved assms(1))
  then have inv2: "list_all (\<lambda>p. e_id (snd p) = fst p) (expenses s2)"
    by (simp add: storeInv_def)
  have gone: "mapGet (expenses s2) (e_id e) = None"
    by (simp add: es2 mapGet_mapDelete)
  have "e_id e \<notin> e_id ` set (getAllExpenses s2)"
  proof
    assume "e_id e \<in> e_id ` set (getAllExpenses s2)"
    then obtain p where p: "p \<in> set (expenses s2)" "e_id (snd p) = e_id e"
      by (auto simp: getAllExpenses_def mapValues_def)
    with inv2 have "fst p = e_id e" by (auto simp: list_all_iff)
    with p(1) gone show False unfolding mapGet_None_iff by (metis imageI)
  qed
  moreover have "fst (deleteExpense (e_id e) s1)"
    by (simp add: deleteExpense_def mapHas_def es1 mapGet_mapSet)
  moreover have "\<not> fst (deleteExpense (e_id e) s2)"
    by (simp add: deleteExpense_def mapHas_def gone)
  moreover have "snd (deleteExpense (e_id e) s2) = s2"
    by (simp add: deleteExpense_def mapDelete_absent[OF gone])
  ultimately show ?thesis by simp
qed

lemma deleteRoute_status:
  "fst (deleteCustomerRoute i s) = (if fst (deleteCustomer i s) then 200 else 404)"
  "snd (deleteCustomerRoute i s) = snd (deleteCustomer i s)"
  "fst (deleteExpenseRoute i s) = (if fst (deleteExpense i s) then 200 else 404)"
  "snd (deleteExpenseRoute i s) = snd (deleteExpense i s)"
  by (simp_all add: deleteCustomerRoute_def deleteExpenseRoute_def split: prod.split)

text \<open>
  C6. An update of a stored customer or expense returns and stores a record with the
  same id and the same \<open>createdAt\<close>, each supplied field replaced by the update's value
  and each unsupplied field as it was.
\<close>

theorem update_merges_and_preserves:
  "(getCustomer i s = Some c \<longrightarrow>
      (\<exists>c'. fst (updateCustomer i u s) = Some c'
         \<and> getCustomer i (snd (updateCustomer i u s)) = Some c'
         \<and> c_id c' = c_id c \<and> createdAt c' = createdAt c
         \<and> name c' = (case u_name u of Some v \<Rightarrow> v | None \<Rightarrow> name c)
         \<and> goodsType c' = (case u_goodsType u of Some v \<Rightarrow> v | None \<Rightarrow> goodsType c)
         \<and> carCount c' = (case u_carCount u of Some v \<Rightarrow> v | None \<Rightarrow> carCount c)
         \<and> amount c' = (case u_amount u of Some v \<Rightarrow> v | None \<Rightarrow> amount c)
         \<and> paymentStatus c' =
             (case u_paymentStatus u of Some v \<Rightarrow> v | None \<Rightarrow> paymentStatus c)))
   \<and> (getExpense j s = Some e \<longrightarrow>
      (\<exists>e'. fst (updateExpense j w s) = Some e'
         \<and> getExpense j (snd (updateExpense j w s)) = Some e'
         \<and> e_id e' = e_id e \<and> e_createdAt e' = e_createdAt e
         \<and> description e' = (case u_description w of Some v \<Rightarrow> v | None \<Rightarrow> description e)
         \<and> e_amount e' = (case u_e_amount w of Some v \<Rightarrow> v | None \<Rightarrow> e_amount e)))"
  by (simp add: getCustomer_def updateCustomer_def mergeCustomer_def mapGet_mapSet
      getExpense_def updateExpense_def mergeExpense_def Let_def)

theorem update_merges_and_preserves_witness:
  "getCustomer (Finite 1)
     \<lparr>customers = [(Finite 1, \<lparr>name = ''A'', goodsType = ''X'', carCount = Finite 2,
                    amount = ''100'', paymentStatus = ''unpaid'', c_id = Finite 1, createdAt = 5\<rparr>)],
      expenses = [(Finite 1, \<lparr>description = ''fuel'', e_amount = ''30'', e_id = Finite 1,
                    e_createdAt = 7\<rparr>)],
      currentCustomerId = Finite 2, currentExpenseId = Finite 2\<rparr>
   = Some \<lparr>name = ''A'', goodsType = ''X'', carCount = Finite 2,
            amount = ''100'', paymentStatus = ''unpaid'', c_id = Finite 1, createdAt = 5\<rparr>
   \<and> fst (updateCustomer (Finite 1)
        \<lparr>u_name = None, u_goodsType = None, u_carCount = None, u_amount = Some ''150'',
         u_paymentStatus = Some ''paid''\<rparr>
        \<lparr>customers = [(Finite 1, \<lparr>name = ''A'', goodsType = ''X'', carCount = Finite 2,
                    amount = ''100'', paymentStatus = ''unpaid'', c_id = Finite 1, createdAt = 5\<rparr>)],
         expenses = [(Finite 1, \<lparr>description = ''fuel'', e_amount = ''30'', e_id = Finite 1,
                    e_createdAt = 7\<rparr>)],
         currentCustomerId = Finite 2, currentExpenseId = Finite 2\<rparr>)
   = Some \<lparr>name = ''A'', goodsType = ''X'', carCount = Finite 2,
            amount = ''150'', paymentStatus = ''paid'', c_id = Finite 1, createdAt = 5\<rparr>
   \<and> fst (updateExpense (Finite 1) \<lparr>u_description = None, u_e_amount = Some ''45''\<rparr>
        \<lparr>customers = [(Finite 1, \<lparr>name = ''A'', goodsType = ''X'', carCount = Finite 2,
                    amount = ''100'', paymentStatus = ''unpaid'', c_id = Finite 1, createdAt = 5\<rparr>)],
         expenses = [(Finite 1, \<lparr>description = ''fuel'', e_amount = ''30'', e_id = Finite 1,
                    e_createdAt = 7\<rparr>)],
         currentCustomerId = Finite 2, currentExpenseId = Finite 2\<rparr>)
   = Some \<lparr>description = ''fuel'', e_amount = ''45'', e_id = Finite 1, e_createdAt = 7\<rparr>"
  using update_merges_and_preserves[of "Finite 1"
      "\<lparr>customers = [(Finite 1, \<lparr>name = ''A'', goodsType = ''X'', carCount = Finite 2,
                    amount = ''100'', paymentStatus = ''unpaid'', c_id = Finite 1, createdAt = 5\<rparr>)],
         expenses = [(Finite 1, \<lparr>description = ''fuel'', e_amount = ''30'', e_id = Finite 1,
                    e_createdAt = 7\<rparr>)],
         currentCustomerId = Finite 2, currentExpenseId = Finite 2\<rparr>"
      "\<lparr>name = ''A'', goodsType = ''X'', carCount = Finite 2,
            amount = ''100'', paymentStatus = ''unpaid'', c_id = Finite 1, createdAt = 5\<rparr>"
      "\<lparr>u_name = None, u_goodsType = None, u_carCount = None, u_amount = Some ''150'',
         u_paymentStatus = Some ''paid''\<rparr>"
      "Finite 1"
      "\<lparr>description = ''fuel'', e_amount = ''30'', e_id = Finite 1, e_createdAt = 7\<rparr>"
      "\<lparr>u_description = None, u_e_amount = Some ''45''\<rparr>"]
  by (simp add: getCustomer_def getExpense_def updateCustomer_def mergeCustomer_def
      updateExpense_def mergeExpense_def Let_def)

text \<open>
  C7. After \<open>clearAllData\<close>, from any state, both collections are empty, both counters
  have their initial value, and the next customer and the next expense created, in
  either order, each get id 1.
\<close>

theorem reset_restarts_ids:
  "customers (clearAllData s) = [] \<and> expenses (clearAllData s) = []
   \<and> getAllCustomers (clearAllData s) = [] \<and> getAllExpenses (clearAllData s) = []
   \<and> currentCustomerId (clearAllData s) = currentCustomerId newMemStorage
   \<and> currentExpenseId (clearAllData s) = currentExpenseId newMemStorage
   \<and> c_id (fst (createCustomer ic t (clearAllData s))) = Finite 1
   \<and> e_id (fst (createExpense ie t' (clearAllData s))) = Finite 1
   \<and> e_id (fst (createExpense ie t' (snd (createCustomer ic t (clearAllData s))))) = Finite 1
   \<and> c_id (fst (createCustomer ic t (snd (createExpense ie t' (clearAllData s))))) = Finite 1"
  by (simp add: clearAllData_def newMemStorage_def createCustomer_def createExpense_def
      getAllCustomers_def getAllExpenses_def mapValues_def Let_def)

text \<open>
  C9. In a state of the store, a record that is created and then deleted by its id:
  the delete returns true (status 200) and no record with that id is listed afterwards;
  a second delete with the same id returns false (status 404, not an error) and leaves
  the store as it was. For customers and for expenses.
\<close>

theorem create_delete_roundtrip:
  assumes "storeInv s"
  shows "(let c = fst (createCustomer ic t s);
              s1 = snd (createCustomer ic t s);
              s2 = snd (deleteCustomer (c_id c) s1)
          in fst (deleteCustomer (c_id c) s1)
             \<and> deleteCustomerRoute (c_id c) s1 = (200, s2)
             \<and> c \<notin> set (getAllCustomers s2)
             \<and> c_id c \<notin> c_id ` set (getAllCustomers s2)
             \<and> \<not> fst (deleteCustomer (c_id c) s2)
             \<and> deleteCustomerRoute (c_id c) s2 = (404, s2))
       \<and> (let e = fst (createExpense ie t' s);
              s1 = snd (createExpense ie t' s);
              s2 = snd (deleteExpense (e_id e) s1)
          in fst (deleteExpense (e_id e) s1)
             \<and> deleteExpenseRoute (e_id e) s1 = (200, s2)
             \<and> e \<notin> set (getAllExpenses s2)
             \<and> e_id e \<notin> e_id ` set (getAllExpenses s2)
             \<and> \<not> fst (deleteExpense (e_id e) s2)
             \<and> deleteExpenseRoute (e_id e) s2 = (404, s2))"
proof -
  note c = delete_after_create_customer[OF assms, of ic t]
  note e = delete_after_create_expense[OF assms, of ie t']
  show ?thesis
    unfolding Let_def
    using c e by (auto simp: prod_eq_iff deleteRoute_status)
qed

theorem create_delete_roundtrip_witness:
  "storeInv newMemStorage
   \<and> deleteCustomerRoute (Finite 1)
        (snd (createCustomer \<lparr>name = ''A'', goodsType = ''X'', carCount = Finite 2,
                amount = ''100'', paymentStatus = ''paid''\<rparr> 0 newMemStorage))
       = (200, newMemStorage\<lparr>currentCustomerId := Finite 2\<rparr>)
   \<and> deleteCustomerRoute (Finite 1) (newMemStorage\<lparr>currentCustomerId := Finite 2\<rparr>)
       = (404, newMemStorage\<lparr>currentCustomerId := Finite 2\<rparr>)
   \<and> getAllCustomers (newMemStorage\<lparr>currentCustomerId := Finite 2\<rparr>) = []
   \<and> deleteExpenseRoute (Finite 1)
        (snd (createExpense \<lparr>description = ''fuel'', e_amount = ''30''\<rparr> 0 newMemStorage))
       = (200, newMemStorage\<lparr>currentExpenseId := Finite 2\<rparr>)
   \<and> deleteExpenseRoute (Finite 1) (newMemStorage\<lparr>currentExpenseId := Finite 2\<rparr>)
       = (404, newMemStorage\<lparr>currentExpenseId := Finite 2\<rparr>)
   \<and> getAllExpenses (newMemStorage\<lparr>currentExpenseId := Finite 2\<rparr>) = []"
  using create_delete_roundtrip[OF storeInv_new,
      of "\<lparr>name = ''A'', goodsType = ''X'', carCount = Finite 2,
           amount = ''100'', paymentStatus = ''paid''\<rparr>" 0
         "\<lparr>description = ''fuel'', e_amount = ''30''\<rparr>" 0]
  by (simp add: storeInv_def createCustomer_def createExpense_def deleteCustomer_def
      deleteExpense_def deleteCustomerRoute_def deleteExpenseRoute_def mapHas_def
      newMemStorage_def Let_def mapDelete_def double_eval
      getAllCustomers_def getAllExpenses_def mapValues_def)

text \<open>
  C10. No customer method changes the expenses collection or the expense id counter,
  and no expense method changes the customers collection or the customer id counter.
\<close>

theorem record_kinds_isolated:
  "expenses (snd (createCustomer ic t s)) = expenses s
   \<and> currentExpenseId (snd (createCustomer ic t s)) = currentExpenseId s
   \<and> expenses (snd (updateCustomer i u s)) = expenses s
   \<and> currentExpenseId (snd (updateCustomer i u s)) = currentExpenseId s
   \<and> expenses (snd (deleteCustomer i s)) = expenses s
   \<and> currentExpenseId (snd (deleteCustomer i s)) = currentExpenseId s
   \<and> customers (snd (createExpense ie t s)) = customers s
   \<and> currentCustomerId (snd (createExpense ie t s)) = currentCustomerId s
   \<and> customers (snd (updateExpense i w s)) = customers s
   \<and> currentCustomerId (snd (updateExpense i w s)) = currentCustomerId s
   \<and> customers (snd (deleteExpense i s)) = customers s
   \<and> currentCustomerId (snd (deleteExpense i s)) = currentCustomerId s"
  by (simp add: createCustomer_def updateCustomer_def deleteCustomer_def createExpense_def
      updateExpense_def deleteExpense_def Let_def split: option.split)

section \<open>Properties of the grouping\<close>

lemma reduceE_append:
  "reduceE f acc (xs @ ys) = (case reduceE f acc xs of Inl e \<Rightarrow> Inl e | Inr a \<Rightarrow> reduceE f a ys)"
  by (induction xs arbitrary: acc) (auto split: sum.splits)

lemma keys_mapSet: "fst ` set (mapSet k v m) = insert k (fst ` set m)"
proof -
  have "k' \<in> fst ` set (mapSet k v m) \<longleftrightarrow> k' \<in> insert k (fst ` set m)" for k'
    using mapGet_None_iff[of "mapSet k v m" k'] mapGet_None_iff[of m k']
    by (simp add: mapGet_mapSet split: if_splits)
  then show ?thesis by blast
qed

lemma distinct_mapSet: "distinct (map fst m) \<Longrightarrow> distinct (map fst (mapSet k v m))"
  by (induction m) (auto simp: keys_mapSet)

lemma mapGet_distinct_mem: "distinct (map fst m) \<Longrightarrow> (k, v) \<in> set m \<Longrightarrow> mapGet m k = Some v"
  by (induction m) (auto simp: rev_image_eqI)

lemma set_objectValues: "set (objectValues obj) = snd ` set obj"
  by (auto simp: objectValues_def)

lemma mset_objectValues: "mset (objectValues obj) = mset (map snd obj)"
proof -
  have "mset (objectValues obj)
      = image_mset snd (filter_mset (\<lambda>p. isArrayIndex (fst p)) (mset obj))
        + image_mset snd (filter_mset (\<lambda>p. \<not> isArrayIndex (fst p)) (mset obj))"
    by (simp add: objectValues_def)
  also have "\<dots> = image_mset snd (mset obj)"
    by (simp flip: image_mset_union)
  finally show ?thesis by simp
qed

lemma addToGroup_groupOfName:
  assumes "name c = n"
  shows "(if n \<in> name ` set cs then addToGroup (groupOfName n cs) c
          else addToGroup \<lparr>g_name = name c, g_goodsType = goodsType c, g_totalCars = Finite 0,
                 g_totalAmount = Finite 0, g_entries = [], g_allPaid = True\<rparr> c)
         = groupOfName n (cs @ [c])"
proof (cases "n \<in> name ` set cs")
  case True
  then have ne: "filter (\<lambda>c. name c = n) cs \<noteq> []"
    by (auto simp: filter_empty_conv)
  show ?thesis
    using True assms ne by (simp add: addToGroup_def groupOfName_def Let_def)
next
  case False
  then have e: "filter (\<lambda>c. name c = n) cs = []"
    by (auto simp: filter_empty_conv)
  show ?thesis
    using False assms e by (simp add: addToGroup_def groupOfName_def Let_def)
qed

lemma groupOfName_other:
  "name c \<noteq> n \<Longrightarrow> groupOfName n (cs @ [c]) = groupOfName n cs"
  by (simp add: groupOfName_def)

lemma groupedByName_snoc:
  "groupedByName (cs @ [c]) =
     (case groupedByName cs of Inl e \<Rightarrow> Inl e | Inr obj \<Rightarrow> groupedByNameStep obj c)"
  by (simp add: groupedByName_def reduceE_append split: sum.splits)

lemma groupedByName_get:
  "groupedByName cs = Inr obj \<Longrightarrow>
     distinct (map fst obj) \<and>
     (\<forall>n. mapGet obj n = (if n \<in> name ` set cs then Some (groupOfName n cs) else None))"
proof (induction cs arbitrary: obj rule: rev_induct)
  case Nil
  then show ?case by (simp add: groupedByName_def)
next
  case (snoc c cs)
  from snoc.prems obtain obj0 where obj0: "groupedByName cs = Inr obj0"
    and step: "groupedByNameStep obj0 c = Inr obj"
    by (auto simp: groupedByName_snoc split: sum.splits)
  from snoc.IH[OF obj0] have d: "distinct (map fst obj0)"
    and g: "\<And>n. mapGet obj0 n = (if n \<in> name ` set cs then Some (groupOfName n cs) else None)"
    by auto
  have obj: "obj = mapSet (name c) (groupOfName (name c) (cs @ [c])) obj0"
    using step addToGroup_groupOfName[of c "name c" cs]
    by (auto simp: groupedByNameStep_def g split: if_splits)
  show ?case
  proof (intro conjI allI)
    show "distinct (map fst obj)" unfolding obj using d by (rule distinct_mapSet)
    fix n
    show "mapGet obj n = (if n \<in> name ` set (cs @ [c]) then Some (groupOfName n (cs @ [c])) else None)"
      unfolding obj by (auto simp: mapGet_mapSet g groupOfName_other)
  qed
qed

lemma groupedByName_ok:
  "list_all (\<lambda>c. name c \<notin> set objectPrototypeKeys) cs \<Longrightarrow> \<exists>obj. groupedByName cs = Inr obj"
proof (induction cs rule: rev_induct)
  case Nil
  then show ?case by (simp add: groupedByName_def)
next
  case (snoc c cs)
  then obtain obj0 where obj0: "groupedByName cs = Inr obj0" by auto
  from snoc.prems have "name c \<notin> set objectPrototypeKeys" by simp
  then show ?case
    by (simp add: groupedByName_snoc obj0 groupedByNameStep_def split: option.split)
qed

lemma groupedByName_mem:
  assumes "groupedByName cs = Inr obj" "g \<in> set (objectValues obj)"
  shows "g_name g \<in> name ` set cs" and "g = groupOfName (g_name g) cs"
proof -
  from assms(2) obtain n where ng: "(n, g) \<in> set obj" by (auto simp: set_objectValues)
  from groupedByName_get[OF assms(1)] have d: "distinct (map fst obj)"
    and get: "\<And>n. mapGet obj n = (if n \<in> name ` set cs then Some (groupOfName n cs) else None)"
    by auto
  from mapGet_distinct_mem[OF d ng] get[of n]
  have n: "n \<in> name ` set cs" and g: "g = groupOfName n cs" by (auto split: if_splits)
  have "g_name g = n" unfolding g by (simp add: groupOfName_def Let_def)
  with n g show "g_name g \<in> name ` set cs" and "g = groupOfName (g_name g) cs" by simp_all
qed

lemma groupedByName_has:
  assumes "groupedByName cs = Inr obj" "c \<in> set cs"
  shows "groupOfName (name c) cs \<in> set (objectValues obj)"
proof -
  from groupedByName_get[OF assms(1)] assms(2)
  have "mapGet obj (name c) = Some (groupOfName (name c) cs)" by auto
  from mapGet_Some_mem[OF this] show ?thesis by (force simp: set_objectValues)
qed

lemma customersByDate_snoc:
  "customersByDate zone (cs @ [c]) =
     mapSet (formatDate zone (createdAt c))
       ((case mapGet (customersByDate zone cs) (formatDate zone (createdAt c)) of
           None \<Rightarrow> [] | Some l \<Rightarrow> l) @ [c])
       (customersByDate zone cs)"
  by (simp add: customersByDate_def Let_def)

lemma customersByDate_get:
  "distinct (map fst (customersByDate zone cs)) \<and>
   (\<forall>k. mapGet (customersByDate zone cs) k =
      (if k \<in> (\<lambda>c. formatDate zone (createdAt c)) ` set cs
       then Some (filter (\<lambda>c. formatDate zone (createdAt c) = k) cs) else None))"
proof (induction cs rule: rev_induct)
  case Nil
  then show ?case by (simp add: customersByDate_def)
next
  case (snoc c cs)
  then have d: "distinct (map fst (customersByDate zone cs))"
    and g: "\<And>k. mapGet (customersByDate zone cs) k =
      (if k \<in> (\<lambda>c. formatDate zone (createdAt c)) ` set cs
       then Some (filter (\<lambda>c. formatDate zone (createdAt c) = k) cs) else None)"
    by auto
  have e: "k \<notin> (\<lambda>c. formatDate zone (createdAt c)) ` set cs \<Longrightarrow>
      filter (\<lambda>c. formatDate zone (createdAt c) = k) cs = []" for k
    by (auto simp: filter_empty_conv)
  show ?case
  proof (intro conjI allI)
    show "distinct (map fst (customersByDate zone (cs @ [c])))"
      unfolding customersByDate_snoc using d by (rule distinct_mapSet)
    fix k
    show "mapGet (customersByDate zone (cs @ [c])) k =
      (if k \<in> (\<lambda>c. formatDate zone (createdAt c)) ` set (cs @ [c])
       then Some (filter (\<lambda>c. formatDate zone (createdAt c) = k) (cs @ [c])) else None)"
      unfolding customersByDate_snoc by (auto simp: mapGet_mapSet g e)
  qed
qed

lemma customersByDate_mem:
  assumes "(k, l) \<in> set (customersByDate zone cs)"
  shows "l = filter (\<lambda>c. formatDate zone (createdAt c) = k) cs"
    and "k \<in> (\<lambda>c. formatDate zone (createdAt c)) ` set cs" and "l \<noteq> []"
proof -
  from customersByDate_get[of zone cs] mapGet_distinct_mem[OF _ assms]
  have "mapGet (customersByDate zone cs) k = Some l" by blast
  with customersByDate_get[of zone cs]
  show l: "l = filter (\<lambda>c. formatDate zone (createdAt c) = k) cs"
    and k: "k \<in> (\<lambda>c. formatDate zone (createdAt c)) ` set cs"
    by (auto split: if_splits)
  from k show "l \<noteq> []" unfolding l by (auto simp: filter_empty_conv)
qed

lemma customersByDate_nonempty: "(k, l) \<in> set (customersByDate zone cs) \<Longrightarrow> l \<noteq> []"
  by (rule customersByDate_mem(3))

lemma customersByDate_keys:
  "set (map fst (customersByDate zone cs)) = (\<lambda>c. formatDate zone (createdAt c)) ` set cs"
proof -
  have "k \<in> fst ` set (customersByDate zone cs) \<longleftrightarrow> k \<in> (\<lambda>c. formatDate zone (createdAt c)) ` set cs" for k
    using mapGet_None_iff[of "customersByDate zone cs" k] customersByDate_get[of zone cs]
    by (auto split: if_splits)
  then show ?thesis by auto
qed

text \<open>
  In a zone with a fixed offset the local day never goes back as time advances. This is
  not so in every zone: a clock change can take the local time back across midnight.
\<close>

lemma formatDate_fixed_offset_mono:
  "a \<le> b \<Longrightarrow> formatDate (\<lambda>t. off) a \<le> formatDate (\<lambda>t. off) b"
  by (simp add: formatDate_def zdiv_mono1)

text \<open>
  Where the local day never goes back, \<open>recentDates\<close> is the three most recent days of
  the list, the most recent first.
\<close>

lemma recentDates_eq:
  assumes mono: "\<And>a b. a \<le> b \<Longrightarrow> formatDate zone a \<le> formatDate zone b"
  shows "recentDates zone cs
   = take 3 (rev (sorted_list_of_set ((\<lambda>c. formatDate zone (createdAt c)) ` set cs)))"
proof -
  define byDate where "byDate = customersByDate zone cs"
  define srt where "srt = sort_key (\<lambda>p. - createdAt (hd (snd p))) byDate"
  have key: "formatDate zone (createdAt (hd (snd p))) = fst p" if "p \<in> set byDate" for p
  proof -
    obtain k l where p: "p = (k, l)" by (cases p)
    from that customersByDate_mem[of k l zone cs]
    have l: "l = filter (\<lambda>c. formatDate zone (createdAt c) = k) cs" "l \<noteq> []"
      by (auto simp: p byDate_def)
    then have "hd l \<in> set (filter (\<lambda>c. formatDate zone (createdAt c) = k) cs)"
      by (metis hd_in_set)
    then have "formatDate zone (createdAt (hd l)) = k" by simp
    then show ?thesis by (simp add: p)
  qed
  have "sorted (map (\<lambda>p. - createdAt (hd (snd p))) srt)"
    unfolding srt_def by (rule sorted_sort_key)
  then have "sorted_wrt (\<lambda>p q. createdAt (hd (snd q)) \<le> createdAt (hd (snd p))) srt"
    by (simp add: sorted_map)
  then have "sorted_wrt (\<lambda>p q. fst q \<le> fst p) srt"
  proof (rule sorted_wrt_mono_rel[rotated])
    fix p q assume "p \<in> set srt" "q \<in> set srt"
      and "createdAt (hd (snd q)) \<le> createdAt (hd (snd p))"
    then show "fst q \<le> fst p"
      using mono[of "createdAt (hd (snd q))" "createdAt (hd (snd p))"]
        key[of p] key[of q] by (simp add: srt_def)
  qed
  then have s: "sorted (rev (map fst srt))"
    by (simp add: sorted_wrt_map sorted_wrt_rev flip: rev_map)
  have "mset (map fst srt) = mset (map fst byDate)"
    by (simp add: srt_def)
  moreover have "distinct (map fst byDate)"
    unfolding byDate_def using customersByDate_get[of zone cs] by blast
  ultimately have d: "distinct (rev (map fst srt))"
    by (metis distinct_rev mset_eq_imp_distinct_iff)
  have st: "set (rev (map fst srt)) = (\<lambda>c. formatDate zone (createdAt c)) ` set cs"
    unfolding srt_def byDate_def using customersByDate_keys[of zone cs] by simp
  have "rev (map fst srt) = sorted_list_of_set ((\<lambda>c. formatDate zone (createdAt c)) ` set cs)"
    by (rule sorted_distinct_set_unique[OF s d]) (use st in simp_all)
  then have "map fst srt = rev (sorted_list_of_set ((\<lambda>c. formatDate zone (createdAt c)) ` set cs))"
    by (metis rev_rev_ident)
  then show ?thesis
    by (simp add: recentDates_def srt_def byDate_def)
qed

subsection \<open>Sums over a partition\<close>

lemma sum_list_zero_fun: "(\<Sum>k\<leftarrow>ks. (0::'b::comm_monoid_add)) = 0"
  by (induction ks) auto

lemma sum_list_indicator:
  "distinct ks \<Longrightarrow> a \<in> set ks \<Longrightarrow>
     (\<Sum>k\<leftarrow>ks. if a = k then c else (0::'b::comm_monoid_add)) = c"
proof (induction ks)
  case Nil
  then show ?case by simp
next
  case (Cons k ks)
  show ?case
  proof (cases "a = k")
    case True
    with Cons.prems have "a \<notin> set ks" by simp
    then have "(\<Sum>k\<leftarrow>ks. if a = k then c else 0) = (\<Sum>k\<leftarrow>ks. (0::'b))"
      by (intro arg_cong[where f = sum_list] map_cong) auto
    with True show ?thesis by (simp add: sum_list_zero_fun)
  next
    case False
    with Cons show ?thesis by simp
  qed
qed

lemma sum_list_partition:
  fixes h :: "'a \<Rightarrow> 'b::comm_monoid_add"
  assumes "distinct ks" "f ` set xs \<subseteq> set ks"
  shows "(\<Sum>k\<leftarrow>ks. sum_list (map h (filter (\<lambda>x. f x = k) xs))) = sum_list (map h xs)"
  using assms(2)
proof (induction xs)
  case Nil
  then show ?case by (simp add: sum_list_zero_fun)
next
  case (Cons x xs)
  have "(\<Sum>k\<leftarrow>ks. sum_list (map h (filter (\<lambda>x. f x = k) (x # xs))))
      = (\<Sum>k\<leftarrow>ks. (if f x = k then h x else 0) + sum_list (map h (filter (\<lambda>x. f x = k) xs)))"
    by (intro arg_cong[where f = sum_list] map_cong) auto
  also have "\<dots> = (\<Sum>k\<leftarrow>ks. if f x = k then h x else 0)
      + (\<Sum>k\<leftarrow>ks. sum_list (map h (filter (\<lambda>x. f x = k) xs)))"
    by (simp add: sum_list_addf)
  also have "\<dots> = h x + sum_list (map h xs)"
    using Cons assms(1) by (simp add: sum_list_indicator)
  finally show ?case by simp
qed

lemma mset_partition:
  assumes "distinct ks" "f ` set xs \<subseteq> set ks"
  shows "(\<Sum>k\<leftarrow>ks. mset (filter (\<lambda>x. f x = k) xs)) = mset xs"
proof -
  have "(\<Sum>k\<leftarrow>ks. mset (filter (\<lambda>x. f x = k) xs))
      = (\<Sum>k\<leftarrow>ks. sum_list (map (\<lambda>x. {#x#}) (filter (\<lambda>x. f x = k) xs)))"
    by simp
  also have "\<dots> = sum_list (map (\<lambda>x. {#x#}) xs)"
    using assms by (rule sum_list_partition)
  finally show ?thesis by simp
qed

lemma sum_list_mset_cong:
  fixes f :: "'a \<Rightarrow> 'b::comm_monoid_add"
  shows "mset xs = mset ys \<Longrightarrow> sum_list (map f xs) = sum_list (map f ys)"
  by (metis mset_map sum_mset_sum_list)

lemma sum_list_filter_le:
  fixes h :: "'a \<Rightarrow> nat"
  shows "sum_list (map h (filter P xs)) \<le> sum_list (map h xs)"
  by (induction xs) auto

lemma mapE_list_all2:
  assumes "\<And>x. x \<in> set xs \<Longrightarrow> \<exists>y. f x = Inr y \<and> R x y"
  shows "\<exists>ys. mapE f xs = Inr ys \<and> list_all2 R xs ys"
  using assms
proof (induction xs)
  case Nil
  then show ?case by simp
next
  case (Cons x xs)
  from Cons.prems[of x] obtain y where y: "f x = Inr y" "R x y" by auto
  from Cons.IH Cons.prems obtain ys where ys: "mapE f xs = Inr ys" "list_all2 R xs ys"
    by (metis list.set_intros(2))
  show ?case using y ys by simp
qed

lemma mapE_Inr_list_all2:
  "mapE f xs = Inr ys \<Longrightarrow> list_all2 (\<lambda>x y. f x = Inr y) xs ys"
  by (induction xs arbitrary: ys) (auto split: sum.splits)

text \<open>Amounts that are whole numbers: every total is the exact sum.\<close>

lemma group_total_whole:
  assumes w: "list_all (\<lambda>c. isWhole (parseFloat (amount c))) cs"
    and b: "sum_list (map (\<lambda>c. natValue (parseFloat (amount c))) cs) \<le> 2 ^ 53"
  shows "g_totalAmount (groupOfName n cs)
    = Finite (of_nat (sum_list (map (\<lambda>c. natValue (parseFloat (amount c)))
        (filter (\<lambda>c. name c = n) cs))))"
proof -
  have "list_all (\<lambda>c. isWhole (parseFloat (amount c))) (filter (\<lambda>c. name c = n) cs)"
    using w by (simp add: list_all_iff)
  moreover have "sum_list (map (\<lambda>c. natValue (parseFloat (amount c))) (filter (\<lambda>c. name c = n) cs))
      \<le> 2 ^ 53"
    using b sum_list_filter_le[of "\<lambda>c. natValue (parseFloat (amount c))" "\<lambda>c. name c = n" cs]
    by linarith
  ultimately show ?thesis
    by (simp add: groupOfName_def Let_def sum_whole)
qed

lemma day_total_whole:
  assumes w: "list_all (\<lambda>c. isWhole (parseFloat (amount c))) cs"
    and b: "sum_list (map (\<lambda>c. natValue (parseFloat (amount c))) cs) \<le> 2 ^ 53"
    and p: "list_all (\<lambda>c. name c \<notin> set objectPrototypeKeys) cs"
  shows "\<exists>d. dayViewOf k cs = Inr d
    \<and> totalDayAmount d = Finite (of_nat (sum_list (map (\<lambda>c. natValue (parseFloat (amount c))) cs)))"
proof -
  let ?nv = "\<lambda>c. natValue (parseFloat (amount c))"
  let ?gv = "\<lambda>n. sum_list (map ?nv (filter (\<lambda>c. name c = n) cs))"
  from groupedByName_ok[OF p] obtain obj where obj: "groupedByName cs = Inr obj" by blast
  from groupedByName_get[OF obj] have d: "distinct (map fst obj)"
    and get: "\<And>n. mapGet obj n = (if n \<in> name ` set cs then Some (groupOfName n cs) else None)"
    by auto
  have mem: "snd q = groupOfName (fst q) cs" if "q \<in> set obj" for q
    using mapGet_distinct_mem[OF d, of "fst q" "snd q"] that get[of "fst q"]
    by (auto split: if_splits)
  have keys: "name ` set cs \<subseteq> set (map fst obj)"
  proof
    fix n assume "n \<in> name ` set cs"
    then have "mapGet obj n \<noteq> None" by (simp add: get)
    then show "n \<in> set (map fst obj)" by (simp add: mapGet_None_iff)
  qed
  have tot: "g_totalAmount g = Finite (of_nat (?gv (g_name g)))" if "g \<in> set (objectValues obj)" for g
    using groupedByName_mem(2)[OF obj that] group_total_whole[OF w b, of "g_name g"] by simp
  have "sum_list (map (\<lambda>g. ?gv (g_name g)) (objectValues obj))
      = sum_list (map (\<lambda>g. ?gv (g_name g)) (map snd obj))"
    by (rule sum_list_mset_cong) (rule mset_objectValues)
  also have "\<dots> = sum_list (map ?gv (map fst obj))"
    unfolding map_map
    by (intro arg_cong[where f = sum_list] map_cong refl) (simp add: mem groupOfName_def Let_def)
  also have "\<dots> = sum_list (map ?nv cs)"
    using sum_list_partition[OF d keys, of ?nv] by (simp add: comp_def)
  finally have total: "sum_list (map (\<lambda>g. ?gv (g_name g)) (objectValues obj)) = sum_list (map ?nv cs)" .
  have nat: "natValue (g_totalAmount g) = ?gv (g_name g)" if "g \<in> set (objectValues obj)" for g
    by (simp add: tot[OF that] natValue_Finite_nat)
  have "foldl (\<lambda>sum g. num_add sum (g_totalAmount g)) (Finite 0) (objectValues obj)
      = Finite (of_nat (sum_list (map (\<lambda>g. natValue (g_totalAmount g)) (objectValues obj))))"
  proof (rule sum_whole)
    show "list_all (\<lambda>g. isWhole (g_totalAmount g)) (objectValues obj)"
      by (simp add: list_all_iff tot isWhole_Finite_nat)
    have "sum_list (map (\<lambda>g. natValue (g_totalAmount g)) (objectValues obj)) = sum_list (map ?nv cs)"
      using total nat by (simp cong: map_cong)
    then show "sum_list (map (\<lambda>g. natValue (g_totalAmount g)) (objectValues obj)) \<le> 2 ^ 53"
      using b by simp
  qed
  also have "sum_list (map (\<lambda>g. natValue (g_totalAmount g)) (objectValues obj)) = sum_list (map ?nv cs)"
    using total nat by (simp cong: map_cong)
  finally show ?thesis
    by (simp add: dayViewOf_def obj Let_def)
qed

lemma sumOfGroupTotals_whole:
  assumes w: "list_all (\<lambda>c. isWhole (parseFloat (amount c))) cs"
    and b: "sum_list (map (\<lambda>c. natValue (parseFloat (amount c))) cs) \<le> 2 ^ 53"
    and p: "list_all (\<lambda>c. name c \<notin> set objectPrototypeKeys) cs"
  shows "sumOfGroupTotals zone cs
    = Inr (Finite (of_nat (sum_list (map (\<lambda>c. natValue (parseFloat (amount c))) cs))))"
proof -
  let ?nv = "\<lambda>c. natValue (parseFloat (amount c))"
  let ?key = "\<lambda>c. formatDate zone (createdAt c)"
  let ?dv = "\<lambda>k. sum_list (map ?nv (filter (\<lambda>c. ?key c = k) cs))"
  define byDate where "byDate = customersByDate zone cs"
  have d: "distinct (map fst byDate)"
    unfolding byDate_def using customersByDate_get[of zone cs] by blast
  have keys: "?key ` set cs \<subseteq> set (map fst byDate)"
    unfolding byDate_def using customersByDate_keys[of zone cs] by simp
  have day: "\<exists>dv. dayViewOf (fst q) (snd q) = Inr dv \<and> totalDayAmount dv = Finite (of_nat (?dv (fst q)))"
    if "q \<in> set byDate" for q
  proof -
    from that customersByDate_mem(1)[of "fst q" "snd q" zone cs]
    have l: "snd q = filter (\<lambda>c. ?key c = fst q) cs" by (simp add: byDate_def)
    have "list_all (\<lambda>c. isWhole (parseFloat (amount c))) (snd q)"
      using w by (subst l) (simp add: list_all_iff)
    moreover have "sum_list (map ?nv (snd q)) \<le> 2 ^ 53"
      using b sum_list_filter_le[of ?nv "\<lambda>c. ?key c = fst q" cs] by (subst l) linarith
    moreover have "list_all (\<lambda>c. name c \<notin> set objectPrototypeKeys) (snd q)"
      using p by (subst l) (simp add: list_all_iff)
    ultimately show ?thesis
      using day_total_whole[of "snd q" "fst q"] l by metis
  qed
  from mapE_list_all2[of byDate "\<lambda>q. dayViewOf (fst q) (snd q)"
      "\<lambda>q dv. totalDayAmount dv = Finite (of_nat (?dv (fst q)))", OF day]
  obtain days where days: "allDayViews zone cs = Inr days"
    and rel: "list_all2 (\<lambda>q dv. totalDayAmount dv = Finite (of_nat (?dv (fst q)))) byDate days"
    by (auto simp: allDayViews_def byDate_def)
  have m: "map totalDayAmount days = map (\<lambda>q. Finite (of_nat (?dv (fst q)))) byDate"
    using rel by (induction byDate days rule: list_all2_induct) auto
  have total: "sum_list (map ?dv (map fst byDate)) = sum_list (map ?nv cs)"
    using sum_list_partition[OF d keys, of ?nv] by simp
  have "foldl (\<lambda>sum dv. num_add sum (totalDayAmount dv)) (Finite 0) days
      = foldl num_add (Finite (of_nat 0)) (map totalDayAmount days)"
    by (simp add: foldl_map)
  also have "\<dots> = Finite (of_nat (0 + sum_list (map natValue (map totalDayAmount days))))"
  proof (rule foldl_num_add_whole)
    show "list_all isWhole (map totalDayAmount days)"
      unfolding m by (simp add: list_all_iff isWhole_Finite_nat)
    have "sum_list (map natValue (map totalDayAmount days)) = sum_list (map ?dv (map fst byDate))"
      unfolding m by (simp add: comp_def natValue_Finite_nat)
    then show "0 + sum_list (map natValue (map totalDayAmount days)) \<le> 2 ^ 53"
      using total b by simp
  qed
  also have "sum_list (map natValue (map totalDayAmount days)) = sum_list (map ?nv cs)"
    unfolding m using total by (simp add: comp_def natValue_Finite_nat)
  finally show ?thesis
    by (simp add: sumOfGroupTotals_def days)
qed

subsection \<open>When the grouping completes\<close>

lemma groupedByName_names:
  "groupedByName cs = Inr obj \<Longrightarrow> list_all (\<lambda>c. name c \<notin> set objectPrototypeKeys) cs"
proof (induction cs arbitrary: obj rule: rev_induct)
  case Nil
  then show ?case by simp
next
  case (snoc c cs)
  from snoc.prems obtain obj0 where obj0: "groupedByName cs = Inr obj0"
    and step: "groupedByNameStep obj0 c = Inr obj"
    by (auto simp: groupedByName_snoc split: sum.splits)
  note ih = snoc.IH[OF obj0]
  from groupedByName_get[OF obj0]
  have g: "mapGet obj0 (name c) = (if name c \<in> name ` set cs then Some (groupOfName (name c) cs) else None)"
    by blast
  have "name c \<notin> set objectPrototypeKeys"
  proof (cases "name c \<in> name ` set cs")
    case True
    then obtain c' where "c' \<in> set cs" "name c' = name c" by auto
    with ih show ?thesis by (auto simp: list_all_iff)
  next
    case False
    with step g show ?thesis by (auto simp: groupedByNameStep_def split: if_splits)
  qed
  with ih show ?case by simp
qed

text \<open>A customer whose name is a property of \<^verbatim>\<open>Object.prototype\<close> stops the reducer.\<close>

lemma groupedByName_prototype_name:
  "groupedByName
     [\<lparr>name = ''constructor'', goodsType = ''X'', carCount = Finite 1, amount = ''100'',
       paymentStatus = ''paid'', c_id = Finite 1, createdAt = 0\<rparr>]
   = Inl TypeError"
  by (simp add: groupedByName_def groupedByNameStep_def objectPrototypeKeys_def)

lemma dayViewOf_Inr:
  "dayViewOf k cs = Inr d \<longleftrightarrow>
     (\<exists>obj. groupedByName cs = Inr obj \<and>
        d = \<lparr>dateKey = k, customerGroups = objectValues obj,
             totalDayAmount = foldl (\<lambda>sum g. num_add sum (g_totalAmount g)) (Finite 0)
               (objectValues obj)\<rparr>)"
  by (auto simp: dayViewOf_def Let_def split: sum.splits)

lemma day_entries_partition:
  assumes "groupedByName cs = Inr obj"
  shows "mset (concat (map g_entries (objectValues obj))) = mset cs"
proof -
  from groupedByName_get[OF assms] have d: "distinct (map fst obj)"
    and get: "\<And>n. mapGet obj n = (if n \<in> name ` set cs then Some (groupOfName n cs) else None)"
    by auto
  have mem: "snd q = groupOfName (fst q) cs" if "q \<in> set obj" for q
    using mapGet_distinct_mem[OF d, of "fst q" "snd q"] that get[of "fst q"]
    by (auto split: if_splits)
  have keys: "name ` set cs \<subseteq> set (map fst obj)"
  proof
    fix n assume "n \<in> name ` set cs"
    then have "mapGet obj n \<noteq> None" by (simp add: get)
    then show "n \<in> set (map fst obj)" by (simp add: mapGet_None_iff)
  qed
  have "mset (concat (map g_entries (objectValues obj)))
      = (\<Sum>g\<leftarrow>objectValues obj. mset (g_entries g))"
    by (simp add: mset_concat comp_def)
  also have "\<dots> = (\<Sum>g\<leftarrow>map snd obj. mset (g_entries g))"
    by (rule sum_list_mset_cong) (rule mset_objectValues)
  also have "\<dots> = (\<Sum>q\<leftarrow>obj. mset (g_entries (snd q)))"
    by (simp add: comp_def)
  also have "\<dots> = (\<Sum>n\<leftarrow>map fst obj. mset (filter (\<lambda>c. name c = n) cs))"
    unfolding map_map
    by (intro arg_cong[where f = sum_list] map_cong refl) (simp add: mem groupOfName_def Let_def)
  also have "\<dots> = mset cs"
    using d keys by (rule mset_partition)
  finally show ?thesis .
qed

lemma all_entries_partition:
  assumes "allDayViews zone cs = Inr days"
  shows "mset (concat (map g_entries (concat (map customerGroups days)))) = mset cs"
proof -
  let ?key = "\<lambda>c. formatDate zone (createdAt c)"
  define byDate where "byDate = customersByDate zone cs"
  have d: "distinct (map fst byDate)"
    unfolding byDate_def using customersByDate_get[of zone cs] by blast
  have keys: "?key ` set cs \<subseteq> set (map fst byDate)"
    unfolding byDate_def using customersByDate_keys[of zone cs] by simp
  from assms have rel: "list_all2 (\<lambda>q dv. dayViewOf (fst q) (snd q) = Inr dv) byDate days"
    unfolding allDayViews_def byDate_def by (rule mapE_Inr_list_all2)
  have "list_all2 (\<lambda>q dv. mset (concat (map g_entries (customerGroups dv)))
      = mset (filter (\<lambda>c. ?key c = fst q) cs)) byDate days"
  proof (rule list.rel_mono_strong[OF rel])
    fix q dv assume q: "q \<in> set byDate" and dv: "dayViewOf (fst q) (snd q) = Inr dv"
    from q customersByDate_mem(1)[of "fst q" "snd q" zone cs]
    have l: "snd q = filter (\<lambda>c. ?key c = fst q) cs" by (simp add: byDate_def)
    from dv obtain obj where obj: "groupedByName (snd q) = Inr obj"
      and cg: "customerGroups dv = objectValues obj"
      by (auto simp: dayViewOf_Inr)
    from day_entries_partition[OF obj]
    show "mset (concat (map g_entries (customerGroups dv))) = mset (filter (\<lambda>c. ?key c = fst q) cs)"
      by (simp add: cg flip: l)
  qed
  then have m: "map (\<lambda>dv. mset (concat (map g_entries (customerGroups dv)))) days
      = map (\<lambda>q. mset (filter (\<lambda>c. ?key c = fst q) cs)) byDate"
    by (induction byDate days rule: list_all2_induct) auto
  have "mset (concat (map g_entries (concat (map customerGroups days))))
      = (\<Sum>dv\<leftarrow>days. mset (concat (map g_entries (customerGroups dv))))"
    by (induction days) (simp_all add: mset_concat)
  also have "\<dots> = (\<Sum>k\<leftarrow>map fst byDate. mset (filter (\<lambda>c. ?key c = k) cs))"
    by (simp add: m comp_def)
  also have "\<dots> = mset cs"
    using d keys by (rule mset_partition)
  finally show ?thesis .
qed

section \<open>The summary and the grouped totals\<close>

lemma literal_sum_whole:
  assumes "list_all2 (\<lambda>x n. literalValue (f x) = Some (of_nat n)) xs ns" "sum_list ns \<le> 2 ^ 53"
  shows "foldl (\<lambda>sum x. num_add sum (parseFloat (f x))) (Finite 0) xs = Finite (of_nat (sum_list ns))"
proof -
  have "list_all2 (\<lambda>x n. parseFloat (f x) = Finite (of_nat n)) xs ns"
  proof (rule list.rel_mono_strong[OF assms(1)])
    fix x n assume "n \<in> set ns" and l: "literalValue (f x) = Some (of_nat n)"
    then have "n \<le> 2 ^ 53" using member_le_sum_list[of n ns] assms(2) by linarith
    with l show "parseFloat (f x) = Finite (of_nat n)" by (rule literal_whole)
  qed
  then have m: "map (\<lambda>x. parseFloat (f x)) xs = map (\<lambda>n. Finite (of_nat n)) ns"
    by (induction xs ns rule: list_all2_induct) auto
  have "foldl (\<lambda>sum x. num_add sum (parseFloat (f x))) (Finite 0) xs
      = foldl num_add (Finite (of_nat 0)) (map (\<lambda>n. Finite (of_nat n)) ns)"
    by (simp add: foldl_map flip: m)
  also have "\<dots> = Finite (of_nat (0 + sum_list (map natValue (map (\<lambda>n. Finite (of_nat n)) ns))))"
    using assms(2)
    by (intro foldl_num_add_whole) (simp_all add: list_all_iff isWhole_Finite_nat comp_def natValue_Finite_nat)
  finally show ?thesis by (simp add: comp_def natValue_Finite_nat)
qed

lemmas view_eval = sumOfGroupTotals_def allDayViews_def dailyOperations_def recentDates_def
  customersByDate_def formatDate_def dayViewOf_def groupedByName_def groupedByNameStep_def
  addToGroup_def objectValues_def objectPrototypeKeys_def isArrayIndex_def

lemma groupOfName_total:
  "g_totalAmount (groupOfName n cs)
   = foldl (\<lambda>sum c. num_add sum (parseFloat (amount c))) (Finite 0) (g_entries (groupOfName n cs))"
  by (simp add: groupOfName_def Let_def)

text \<open>
  C1. In the summary, \<open>netTotal\<close> is the difference (the subtraction of doubles that the
  handler performs) of \<open>totalRevenue\<close> and \<open>totalExpenses\<close>, which are the sums, from 0 and
  in list order, of the parsed amounts of the customers and of the expenses.
\<close>

theorem netTotal_is_difference:
  "netTotal (summaryOf cs es)
     = num_sub (totalRevenue (summaryOf cs es)) (totalExpenses (summaryOf cs es))
   \<and> totalRevenue (summaryOf cs es)
     = foldl num_add (Finite 0) (map (\<lambda>c. parseFloat (amount c)) cs)
   \<and> totalExpenses (summaryOf cs es)
     = foldl num_add (Finite 0) (map (\<lambda>e. parseFloat (e_amount e)) es)
   \<and> netTotal (getSummary s)
     = num_sub (totalRevenue (getSummary s)) (totalExpenses (getSummary s))"
  by (simp add: summaryOf_def getSummary_def Let_def foldl_map)

theorem netTotal_is_difference_witness:
  "summaryOf
     [\<lparr>name = ''A'', goodsType = ''X'', carCount = Finite 2, amount = ''100'',
       paymentStatus = ''paid'', c_id = Finite 1, createdAt = 0\<rparr>,
      \<lparr>name = ''A'', goodsType = ''X'', carCount = Finite 1, amount = ''50'',
       paymentStatus = ''unpaid'', c_id = Finite 2, createdAt = 1\<rparr>]
     [\<lparr>description = ''fuel'', e_amount = ''30'', e_id = Finite 1, e_createdAt = 2\<rparr>]
   = \<lparr>totalRevenue = Finite 150, totalExpenses = Finite 30, netTotal = Finite 120,
      totalCars = Finite 3, customerCount = 2, expenseCount = 1\<rparr>"
  using netTotal_is_difference[of
     "[\<lparr>name = ''A'', goodsType = ''X'', carCount = Finite 2, amount = ''100'',
       paymentStatus = ''paid'', c_id = Finite 1, createdAt = 0\<rparr>,
      \<lparr>name = ''A'', goodsType = ''X'', carCount = Finite 1, amount = ''50'',
       paymentStatus = ''unpaid'', c_id = Finite 2, createdAt = 1\<rparr>]"
     "[\<lparr>description = ''fuel'', e_amount = ''30'', e_id = Finite 1, e_createdAt = 2\<rparr>]"
     newMemStorage]
  by (simp add: summaryOf_def num_sub_def parse_eval double_eval)

text \<open>
  C3, as the spec states it, fails: the totals are sums of doubles. With the amounts
  0.1 and 0.2 the revenue is neither the exact sum 3/10 nor the double next to it.
\<close>

theorem exact_decimal_sum_counterexample:
  "literalValue ''0.1'' = Some (1 / 10) \<and> literalValue ''0.2'' = Some (2 / 10)
   \<and> totalRevenue (summaryOf
        [\<lparr>name = ''A'', goodsType = ''X'', carCount = Finite 1, amount = ''0.1'',
          paymentStatus = ''paid'', c_id = Finite 1, createdAt = 0\<rparr>,
         \<lparr>name = ''B'', goodsType = ''X'', carCount = Finite 1, amount = ''0.2'',
          paymentStatus = ''paid'', c_id = Finite 2, createdAt = 0\<rparr>] [])
       = Finite (1351079888211149 / 4503599627370496)
   \<and> Finite (1351079888211149 / 4503599627370496) \<noteq> Finite (1 / 10 + 2 / 10)
   \<and> Finite (1351079888211149 / 4503599627370496) \<noteq> parseFloat ''0.3''"
  by (simp add: summaryOf_def parse_eval double_dec)

text \<open>
  C3, amended. The sums are sums of doubles, and they are exact for whole amounts: when
  the amounts of the summed records are literals of natural numbers whose exact sum is at
  most \<open>2 ^ 53\<close>, then \<open>totalRevenue\<close>, \<open>totalExpenses\<close> and the \<open>totalAmount\<close> of a group
  are that exact sum.
\<close>

theorem whole_amount_sums_exact:
  "(list_all2 (\<lambda>c n. literalValue (amount c) = Some (of_nat n)) cs ns \<and> sum_list ns \<le> 2 ^ 53
      \<longrightarrow> totalRevenue (summaryOf cs es) = Finite (of_nat (sum_list ns)))
   \<and> (list_all2 (\<lambda>e n. literalValue (e_amount e) = Some (of_nat n)) es ms \<and> sum_list ms \<le> 2 ^ 53
      \<longrightarrow> totalExpenses (summaryOf cs es) = Finite (of_nat (sum_list ms)))
   \<and> (groupedByName dcs = Inr obj \<and> g \<in> set (objectValues obj)
       \<and> list_all2 (\<lambda>c n. literalValue (amount c) = Some (of_nat n)) (g_entries g) ks
       \<and> sum_list ks \<le> 2 ^ 53
      \<longrightarrow> g_totalAmount g = Finite (of_nat (sum_list ks)))"
proof (intro conjI impI)
  assume "list_all2 (\<lambda>c n. literalValue (amount c) = Some (of_nat n)) cs ns \<and> sum_list ns \<le> 2 ^ 53"
  then show "totalRevenue (summaryOf cs es) = Finite (of_nat (sum_list ns))"
    using literal_sum_whole[of amount cs ns] by (simp add: summaryOf_def Let_def)
next
  assume "list_all2 (\<lambda>e n. literalValue (e_amount e) = Some (of_nat n)) es ms \<and> sum_list ms \<le> 2 ^ 53"
  then show "totalExpenses (summaryOf cs es) = Finite (of_nat (sum_list ms))"
    using literal_sum_whole[of e_amount es ms] by (simp add: summaryOf_def Let_def)
next
  assume a: "groupedByName dcs = Inr obj \<and> g \<in> set (objectValues obj)
       \<and> list_all2 (\<lambda>c n. literalValue (amount c) = Some (of_nat n)) (g_entries g) ks
       \<and> sum_list ks \<le> 2 ^ 53"
  then have "g = groupOfName (g_name g) dcs" using groupedByName_mem(2) by blast
  then have "g_totalAmount g
      = foldl (\<lambda>sum c. num_add sum (parseFloat (amount c))) (Finite 0) (g_entries g)"
    using groupOfName_total[of "g_name g" dcs] by simp
  with a show "g_totalAmount g = Finite (of_nat (sum_list ks))"
    using literal_sum_whole[of amount "g_entries g" ks] by simp
qed

theorem whole_amount_sums_exact_witness:
  "list_all2 (\<lambda>c n. literalValue (amount c) = Some (of_nat n))
     [\<lparr>name = ''A'', goodsType = ''X'', carCount = Finite 2, amount = ''100'',
       paymentStatus = ''paid'', c_id = Finite 1, createdAt = 0\<rparr>,
      \<lparr>name = ''A'', goodsType = ''X'', carCount = Finite 1, amount = ''50.00'',
       paymentStatus = ''unpaid'', c_id = Finite 2, createdAt = 1\<rparr>] [100, 50]
   \<and> sum_list [100, 50 :: nat] \<le> 2 ^ 53
   \<and> list_all2 (\<lambda>e n. literalValue (e_amount e) = Some (of_nat n))
     [\<lparr>description = ''fuel'', e_amount = ''30'', e_id = Finite 1, e_createdAt = 2\<rparr>] [30]
   \<and> sum_list [30 :: nat] \<le> 2 ^ 53
   \<and> totalRevenue (summaryOf
        [\<lparr>name = ''A'', goodsType = ''X'', carCount = Finite 2, amount = ''100'',
          paymentStatus = ''paid'', c_id = Finite 1, createdAt = 0\<rparr>,
         \<lparr>name = ''A'', goodsType = ''X'', carCount = Finite 1, amount = ''50.00'',
          paymentStatus = ''unpaid'', c_id = Finite 2, createdAt = 1\<rparr>]
        [\<lparr>description = ''fuel'', e_amount = ''30'', e_id = Finite 1, e_createdAt = 2\<rparr>])
       = Finite 150
   \<and> totalExpenses (summaryOf
        [\<lparr>name = ''A'', goodsType = ''X'', carCount = Finite 2, amount = ''100'',
          paymentStatus = ''paid'', c_id = Finite 1, createdAt = 0\<rparr>,
         \<lparr>name = ''A'', goodsType = ''X'', carCount = Finite 1, amount = ''50.00'',
          paymentStatus = ''unpaid'', c_id = Finite 2, createdAt = 1\<rparr>]
        [\<lparr>description = ''fuel'', e_amount = ''30'', e_id = Finite 1, e_createdAt = 2\<rparr>])
       = Finite 30
   \<and> groupedByName
        [\<lparr>name = ''A'', goodsType = ''X'', carCount = Finite 2, amount = ''100'',
          paymentStatus = ''paid'', c_id = Finite 1, createdAt = 0\<rparr>,
         \<lparr>name = ''A'', goodsType = ''X'', carCount = Finite 1, amount = ''50.00'',
          paymentStatus = ''unpaid'', c_id = Finite 2, createdAt = 1\<rparr>]
       = Inr [(''A'', \<lparr>g_name = ''A'', g_goodsType = ''X'', g_totalCars = Finite 3,
                 g_totalAmount = Finite 150,
                 g_entries =
                   [\<lparr>name = ''A'', goodsType = ''X'', carCount = Finite 2, amount = ''100'',
                     paymentStatus = ''paid'', c_id = Finite 1, createdAt = 0\<rparr>,
                    \<lparr>name = ''A'', goodsType = ''X'', carCount = Finite 1, amount = ''50.00'',
                     paymentStatus = ''unpaid'', c_id = Finite 2, createdAt = 1\<rparr>],
                 g_allPaid = False\<rparr>)]"
  using whole_amount_sums_exact[of
     "[\<lparr>name = ''A'', goodsType = ''X'', carCount = Finite 2, amount = ''100'',
       paymentStatus = ''paid'', c_id = Finite 1, createdAt = 0\<rparr>,
      \<lparr>name = ''A'', goodsType = ''X'', carCount = Finite 1, amount = ''50.00'',
       paymentStatus = ''unpaid'', c_id = Finite 2, createdAt = 1\<rparr>]"
     "[100, 50]"
     "[\<lparr>description = ''fuel'', e_amount = ''30'', e_id = Finite 1, e_createdAt = 2\<rparr>]"
     "[30]"
     "[\<lparr>name = ''A'', goodsType = ''X'', carCount = Finite 2, amount = ''100'',
       paymentStatus = ''paid'', c_id = Finite 1, createdAt = 0\<rparr>,
      \<lparr>name = ''A'', goodsType = ''X'', carCount = Finite 1, amount = ''50.00'',
       paymentStatus = ''unpaid'', c_id = Finite 2, createdAt = 1\<rparr>]"
     "[(''A'', \<lparr>g_name = ''A'', g_goodsType = ''X'', g_totalCars = Finite 3,
                 g_totalAmount = Finite 150,
                 g_entries =
                   [\<lparr>name = ''A'', goodsType = ''X'', carCount = Finite 2, amount = ''100'',
                     paymentStatus = ''paid'', c_id = Finite 1, createdAt = 0\<rparr>,
                    \<lparr>name = ''A'', goodsType = ''X'', carCount = Finite 1, amount = ''50.00'',
                     paymentStatus = ''unpaid'', c_id = Finite 2, createdAt = 1\<rparr>],
                 g_allPaid = False\<rparr>)]"
     "\<lparr>g_name = ''A'', g_goodsType = ''X'', g_totalCars = Finite 3,
                 g_totalAmount = Finite 150,
                 g_entries =
                   [\<lparr>name = ''A'', goodsType = ''X'', carCount = Finite 2, amount = ''100'',
                     paymentStatus = ''paid'', c_id = Finite 1, createdAt = 0\<rparr>,
                    \<lparr>name = ''A'', goodsType = ''X'', carCount = Finite 1, amount = ''50.00'',
                     paymentStatus = ''unpaid'', c_id = Finite 2, createdAt = 1\<rparr>],
                 g_allPaid = False\<rparr>"
     "[100, 50]"]
  by (simp add: summaryOf_def groupedByName_def groupedByNameStep_def addToGroup_def
      objectPrototypeKeys_def parse_eval double_eval)

text \<open>
  C2, as the spec states it, fails: addition of doubles is not associative, and grouping
  changes the order of the additions. Three customers of one day, A 0.3, B 0.1, A 0.2:
  the group totals add up to 0.6, the revenue is 0.6000000000000001.
\<close>

theorem grouped_total_counterexample:
  "sumOfGroupTotals (\<lambda>t. 0)
     [\<lparr>name = ''A'', goodsType = ''X'', carCount = Finite 1, amount = ''0.3'',
       paymentStatus = ''paid'', c_id = Finite 1, createdAt = 0\<rparr>,
      \<lparr>name = ''B'', goodsType = ''X'', carCount = Finite 1, amount = ''0.1'',
       paymentStatus = ''paid'', c_id = Finite 2, createdAt = 0\<rparr>,
      \<lparr>name = ''A'', goodsType = ''X'', carCount = Finite 1, amount = ''0.2'',
       paymentStatus = ''paid'', c_id = Finite 3, createdAt = 0\<rparr>]
     = Inr (Finite (5404319552844595 / 9007199254740992))
   \<and> totalRevenue (summaryOf
     [\<lparr>name = ''A'', goodsType = ''X'', carCount = Finite 1, amount = ''0.3'',
       paymentStatus = ''paid'', c_id = Finite 1, createdAt = 0\<rparr>,
      \<lparr>name = ''B'', goodsType = ''X'', carCount = Finite 1, amount = ''0.1'',
       paymentStatus = ''paid'', c_id = Finite 2, createdAt = 0\<rparr>,
      \<lparr>name = ''A'', goodsType = ''X'', carCount = Finite 1, amount = ''0.2'',
       paymentStatus = ''paid'', c_id = Finite 3, createdAt = 0\<rparr>] [])
     = Finite (1351079888211149 / 2251799813685248)
   \<and> Finite (5404319552844595 / 9007199254740992)
     \<noteq> Finite (1351079888211149 / 2251799813685248)"
  by (simp add: sumOfGroupTotals_def allDayViews_def customersByDate_def formatDate_def
      dayViewOf_def groupedByName_def groupedByNameStep_def addToGroup_def objectValues_def
      objectPrototypeKeys_def isArrayIndex_def summaryOf_def parse_eval double_dec double_eval)

text \<open>
  C2, amended. When the grouping completes, it is a lossless partition of the
  transactions: the entries of all (date, name) groups together are the customer list,
  each transaction once. The groups' \<open>totalAmount\<close> add up to \<open>totalRevenue\<close> when the
  amounts are whole numbers with a sum of at most \<open>2 ^ 53\<close> (and no customer name is a
  property of \<^verbatim>\<open>Object.prototype\<close>).
\<close>

theorem grouping_lossless_partition:
  "(allDayViews zone cs = Inr days
      \<longrightarrow> mset (concat (map g_entries (concat (map customerGroups days)))) = mset cs)
   \<and> (list_all (\<lambda>c. isWhole (parseFloat (amount c)) \<and> name c \<notin> set objectPrototypeKeys) cs
       \<and> sum_list (map (\<lambda>c. natValue (parseFloat (amount c))) cs) \<le> 2 ^ 53
      \<longrightarrow> sumOfGroupTotals zone cs = Inr (totalRevenue (summaryOf cs es)))"
proof (intro conjI impI)
  assume "allDayViews zone cs = Inr days"
  then show "mset (concat (map g_entries (concat (map customerGroups days)))) = mset cs"
    by (rule all_entries_partition)
next
  assume a: "list_all (\<lambda>c. isWhole (parseFloat (amount c)) \<and> name c \<notin> set objectPrototypeKeys) cs
       \<and> sum_list (map (\<lambda>c. natValue (parseFloat (amount c))) cs) \<le> 2 ^ 53"
  then have w: "list_all (\<lambda>c. isWhole (parseFloat (amount c))) cs"
    and p: "list_all (\<lambda>c. name c \<notin> set objectPrototypeKeys) cs"
    and b: "sum_list (map (\<lambda>c. natValue (parseFloat (amount c))) cs) \<le> 2 ^ 53"
    by (simp_all add: list_all_iff)
  have "totalRevenue (summaryOf cs es)
      = Finite (of_nat (sum_list (map (\<lambda>c. natValue (parseFloat (amount c))) cs)))"
    using sum_whole[of "\<lambda>c. parseFloat (amount c)" cs, OF w b] by (simp add: summaryOf_def Let_def)
  with sumOfGroupTotals_whole[OF w b p, of zone] show "sumOfGroupTotals zone cs = Inr (totalRevenue (summaryOf cs es))"
    by simp
qed

theorem grouping_lossless_partition_witness:
  "allDayViews (\<lambda>t. 0)
     [\<lparr>name = ''A'', goodsType = ''X'', carCount = Finite 2, amount = ''100'',
       paymentStatus = ''paid'', c_id = Finite 3, createdAt = 86400000\<rparr>,
      \<lparr>name = ''B'', goodsType = ''Y'', carCount = Finite 1, amount = ''50'',
       paymentStatus = ''unpaid'', c_id = Finite 2, createdAt = 86400000\<rparr>,
      \<lparr>name = ''A'', goodsType = ''X'', carCount = Finite 1, amount = ''30'',
       paymentStatus = ''paid'', c_id = Finite 1, createdAt = 0\<rparr>]
   = Inr
     [\<lparr>dateKey = 1,
         customerGroups =
           [\<lparr>g_name = ''A'', g_goodsType = ''X'', g_totalCars = Finite 2,
               g_totalAmount = Finite 100,
               g_entries =
                 [\<lparr>name = ''A'', goodsType = ''X'', carCount = Finite 2,
                     amount = ''100'', paymentStatus = ''paid'',
                     c_id = Finite 3, createdAt = 86400000\<rparr>],
               g_allPaid = True\<rparr>,
            \<lparr>g_name = ''B'', g_goodsType = ''Y'', g_totalCars = Finite 1,
               g_totalAmount = Finite 50,
               g_entries =
                 [\<lparr>name = ''B'', goodsType = ''Y'', carCount = Finite 1,
                     amount = ''50'', paymentStatus = ''unpaid'',
                     c_id = Finite 2, createdAt = 86400000\<rparr>],
               g_allPaid = False\<rparr>],
         totalDayAmount = Finite 150\<rparr>,
      \<lparr>dateKey = 0,
         customerGroups =
           [\<lparr>g_name = ''A'', g_goodsType = ''X'', g_totalCars = Finite 1,
               g_totalAmount = Finite 30,
               g_entries =
                 [\<lparr>name = ''A'', goodsType = ''X'', carCount = Finite 1,
                     amount = ''30'', paymentStatus = ''paid'',
                     c_id = Finite 1, createdAt = 0\<rparr>],
               g_allPaid = True\<rparr>],
         totalDayAmount = Finite 30\<rparr>]
   \<and> list_all (\<lambda>c. isWhole (parseFloat (amount c)) \<and> name c \<notin> set objectPrototypeKeys)
     [\<lparr>name = ''A'', goodsType = ''X'', carCount = Finite 2, amount = ''100'',
       paymentStatus = ''paid'', c_id = Finite 3, createdAt = 86400000\<rparr>,
      \<lparr>name = ''B'', goodsType = ''Y'', carCount = Finite 1, amount = ''50'',
       paymentStatus = ''unpaid'', c_id = Finite 2, createdAt = 86400000\<rparr>,
      \<lparr>name = ''A'', goodsType = ''X'', carCount = Finite 1, amount = ''30'',
       paymentStatus = ''paid'', c_id = Finite 1, createdAt = 0\<rparr>]
   \<and> sum_list (map (\<lambda>c. natValue (parseFloat (amount c)))
     [\<lparr>name = ''A'', goodsType = ''X'', carCount = Finite 2, amount = ''100'',
       paymentStatus = ''paid'', c_id = Finite 3, createdAt = 86400000\<rparr>,
      \<lparr>name = ''B'', goodsType = ''Y'', carCount = Finite 1, amount = ''50'',
       paymentStatus = ''unpaid'', c_id = Finite 2, createdAt = 86400000\<rparr>,
      \<lparr>name = ''A'', goodsType = ''X'', carCount = Finite 1, amount = ''30'',
       paymentStatus = ''paid'', c_id = Finite 1, createdAt = 0\<rparr>]) \<le> 2 ^ 53
   \<and> sumOfGroupTotals (\<lambda>t. 0)
     [\<lparr>name = ''A'', goodsType = ''X'', carCount = Finite 2, amount = ''100'',
       paymentStatus = ''paid'', c_id = Finite 3, createdAt = 86400000\<rparr>,
      \<lparr>name = ''B'', goodsType = ''Y'', carCount = Finite 1, amount = ''50'',
       paymentStatus = ''unpaid'', c_id = Finite 2, createdAt = 86400000\<rparr>,
      \<lparr>name = ''A'', goodsType = ''X'', carCount = Finite 1, amount = ''30'',
       paymentStatus = ''paid'', c_id = Finite 1, createdAt = 0\<rparr>]
   = Inr (Finite 180)
   \<and> totalRevenue (summaryOf
     [\<lparr>name = ''A'', goodsType = ''X'', carCount = Finite 2, amount = ''100'',
       paymentStatus = ''paid'', c_id = Finite 3, createdAt = 86400000\<rparr>,
      \<lparr>name = ''B'', goodsType = ''Y'', carCount = Finite 1, amount = ''50'',
       paymentStatus = ''unpaid'', c_id = Finite 2, createdAt = 86400000\<rparr>,
      \<lparr>name = ''A'', goodsType = ''X'', carCount = Finite 1, amount = ''30'',
       paymentStatus = ''paid'', c_id = Finite 1, createdAt = 0\<rparr>] []) = Finite 180"
  using grouping_lossless_partition[of "\<lambda>t. 0"
     "[\<lparr>name = ''A'', goodsType = ''X'', carCount = Finite 2, amount = ''100'',
       paymentStatus = ''paid'', c_id = Finite 3, createdAt = 86400000\<rparr>,
      \<lparr>name = ''B'', goodsType = ''Y'', carCount = Finite 1, amount = ''50'',
       paymentStatus = ''unpaid'', c_id = Finite 2, createdAt = 86400000\<rparr>,
      \<lparr>name = ''A'', goodsType = ''X'', carCount = Finite 1, amount = ''30'',
       paymentStatus = ''paid'', c_id = Finite 1, createdAt = 0\<rparr>]"
     "[\<lparr>dateKey = 1,
         customerGroups =
           [\<lparr>g_name = ''A'', g_goodsType = ''X'', g_totalCars = Finite 2,
               g_totalAmount = Finite 100,
               g_entries =
                 [\<lparr>name = ''A'', goodsType = ''X'', carCount = Finite 2,
                     amount = ''100'', paymentStatus = ''paid'',
                     c_id = Finite 3, createdAt = 86400000\<rparr>],
               g_allPaid = True\<rparr>,
            \<lparr>g_name = ''B'', g_goodsType = ''Y'', g_totalCars = Finite 1,
               g_totalAmount = Finite 50,
               g_entries =
                 [\<lparr>name = ''B'', goodsType = ''Y'', carCount = Finite 1,
                     amount = ''50'', paymentStatus = ''unpaid'',
                     c_id = Finite 2, createdAt = 86400000\<rparr>],
               g_allPaid = False\<rparr>],
         totalDayAmount = Finite 150\<rparr>,
      \<lparr>dateKey = 0,
         customerGroups =
           [\<lparr>g_name = ''A'', g_goodsType = ''X'', g_totalCars = Finite 1,
               g_totalAmount = Finite 30,
               g_entries =
                 [\<lparr>name = ''A'', goodsType = ''X'', carCount = Finite 1,
                     amount = ''30'', paymentStatus = ''paid'',
                     c_id = Finite 1, createdAt = 0\<rparr>],
               g_allPaid = True\<rparr>],
         totalDayAmount = Finite 30\<rparr>]" "[]"]
  by (simp add: view_eval summaryOf_def isWhole_def natValue_def parse_eval double_eval)

section \<open>The three most recent days\<close>

lemma dailyOperations_keys:
  assumes "mapE f ks = Inr days" "\<And>k d. f k = Inr d \<Longrightarrow> dateKey d = k"
  shows "map dateKey days = ks"
  using assms(1)
proof (induction ks arbitrary: days)
  case Nil
  then show ?case by simp
next
  case (Cons k ks)
  then show ?case using assms(2)[of k] by (auto split: sum.splits)
qed

lemma dailyOperations_dateKeys:
  assumes "dailyOperations zone cs = Inr days"
  shows "map dateKey days = recentDates zone cs"
  using assms unfolding dailyOperations_def Let_def
  by (rule dailyOperations_keys) (auto simp: dayViewOf_Inr split: option.splits)

text \<open>
  A zone with daylight saving: Europe/London in 2024 is one hour ahead of UTC from
  31 March 01:00 UTC to 27 October 01:00 UTC. A record created on 30 June at 23:30 UTC is
  of 01/07/2024 (day 19905), a record created on 1 January at 00:00 UTC is of 01/01/2024
  (day 19723).
\<close>

lemma recentDates_london:
  "recentDates (\<lambda>t. if 1711846800000 \<le> t \<and> t < 1729990800000 then 3600000 else 0)
     [\<lparr>name = ''B'', goodsType = ''X'', carCount = Finite 1, amount = ''20'',
       paymentStatus = ''paid'', c_id = Finite 2, createdAt = 1719790200000\<rparr>,
      \<lparr>name = ''A'', goodsType = ''X'', carCount = Finite 1, amount = ''10'',
       paymentStatus = ''paid'', c_id = Finite 1, createdAt = 1704067200000\<rparr>]
   = [19905, 19723]"
  by (simp add: view_eval)


section \<open>The payment flag of a group\<close>

lemma groupOfName_allPaid:
  "g_allPaid (groupOfName n cs)
   \<longleftrightarrow> (\<forall>e\<in>set (g_entries (groupOfName n cs)). paymentStatus e \<noteq> ''unpaid'')"
  by (simp add: groupOfName_def Let_def list_all_iff)

lemma groupOfName_entries: "g_entries (groupOfName n cs) = filter (\<lambda>c. name c = n) cs"
  by (simp add: groupOfName_def Let_def)

lemma groupOfName_name: "g_name (groupOfName n cs) = n"
  by (simp add: groupOfName_def Let_def)

lemma groupedByName_flip:
  assumes "groupedByName cs = Inr obj" "i < length cs"
  shows "\<exists>obj'. groupedByName (cs[i := (cs ! i)\<lparr>paymentStatus := ''unpaid''\<rparr>]) = Inr obj'
    \<and> (\<exists>g'\<in>set (objectValues obj'). g_name g' = name (cs ! i)
          \<and> (cs ! i)\<lparr>paymentStatus := ''unpaid''\<rparr> \<in> set (g_entries g'))
    \<and> (\<forall>g'\<in>set (objectValues obj'). g_name g' = name (cs ! i) \<longrightarrow> \<not> g_allPaid g')"
proof -
  define x where "x = (cs ! i)\<lparr>paymentStatus := ''unpaid''\<rparr>"
  define cs' where "cs' = cs[i := x]"
  have x: "x \<in> set cs'" "name x = name (cs ! i)" "paymentStatus x = ''unpaid''"
    using assms(2) by (simp_all add: x_def cs'_def set_update_memI)
  have "list_all (\<lambda>c. name c \<notin> set objectPrototypeKeys) cs"
    using assms(1) by (rule groupedByName_names)
  then have "list_all (\<lambda>c. name c \<notin> set objectPrototypeKeys) cs'"
    using assms(2) set_update_subset_insert[of cs i x] nth_mem[OF assms(2)]
    by (auto simp: list_all_iff cs'_def x_def)
  from groupedByName_ok[OF this] obtain obj' where obj': "groupedByName cs' = Inr obj'" by blast
  let ?g = "groupOfName (name x) cs'"
  have in_g: "x \<in> set (g_entries ?g)" using x(1) by (simp add: groupOfName_entries)
  then have np: "\<not> g_allPaid ?g" using x(3) by (auto simp: groupOfName_allPaid)
  have 1: "\<exists>g'\<in>set (objectValues obj'). g_name g' = name (cs ! i) \<and> x \<in> set (g_entries g')"
    using groupedByName_has[OF obj' x(1)] in_g x(2) by (metis groupOfName_name)
  have 2: "\<forall>g'\<in>set (objectValues obj'). g_name g' = name (cs ! i) \<longrightarrow> \<not> g_allPaid g'"
    using groupedByName_mem(2)[OF obj'] np x(2) by metis
  show ?thesis
    using obj' 1 2 unfolding cs'_def x_def by blast
qed

lemma dayView_allPaid:
  assumes "dayViewOf k dcs = Inr d" "g \<in> set (customerGroups d)"
  shows "g_allPaid g \<longleftrightarrow> (\<forall>e\<in>set (g_entries g). paymentStatus e \<noteq> ''unpaid'')"
proof -
  from assms obtain obj where obj: "groupedByName dcs = Inr obj"
    and g: "g \<in> set (objectValues obj)"
    by (auto simp: dayViewOf_Inr)
  have "g = groupOfName (g_name g) dcs" using groupedByName_mem(2)[OF obj g] .
  then show ?thesis using groupOfName_allPaid[of "g_name g" dcs] by simp
qed

lemma dayView_flip:
  assumes "dayViewOf k dcs = Inr d" "i < length dcs"
  shows "\<exists>d'. dayViewOf k (dcs[i := (dcs ! i)\<lparr>paymentStatus := ''unpaid''\<rparr>]) = Inr d'
    \<and> (\<exists>g'\<in>set (customerGroups d'). g_name g' = name (dcs ! i)
          \<and> (dcs ! i)\<lparr>paymentStatus := ''unpaid''\<rparr> \<in> set (g_entries g'))
    \<and> (\<forall>g'\<in>set (customerGroups d'). g_name g' = name (dcs ! i) \<longrightarrow> \<not> g_allPaid g')"
proof -
  from assms(1) obtain obj where obj: "groupedByName dcs = Inr obj"
    by (auto simp: dayViewOf_Inr)
  from groupedByName_flip[OF obj assms(2)] obtain obj' where
    o: "groupedByName (dcs[i := (dcs ! i)\<lparr>paymentStatus := ''unpaid''\<rparr>]) = Inr obj'"
    and a: "\<exists>g'\<in>set (objectValues obj'). g_name g' = name (dcs ! i)
        \<and> (dcs ! i)\<lparr>paymentStatus := ''unpaid''\<rparr> \<in> set (g_entries g')"
    and b: "\<forall>g'\<in>set (objectValues obj'). g_name g' = name (dcs ! i) \<longrightarrow> \<not> g_allPaid g'"
    by blast
  show ?thesis
    using a b by (simp add: dayViewOf_def o Let_def)
qed

text \<open>
  C4. In every group of a date partition whose entries have the payment statuses of the
  data model, paid or unpaid, \<open>allPaid\<close> is true iff every entry of the group is paid.
  Setting the status of any one entry of the group to unpaid makes \<open>allPaid\<close> of the
  recomputed group of that name false.
\<close>

theorem allPaid_iff_every_entry_paid:
  assumes "dayViewOf k dcs = Inr d" "g \<in> set (customerGroups d)"
    and "\<forall>e\<in>set (g_entries g). paymentStatus e = ''paid'' \<or> paymentStatus e = ''unpaid''"
  shows "(g_allPaid g \<longleftrightarrow> (\<forall>e\<in>set (g_entries g). paymentStatus e = ''paid''))
    \<and> (\<forall>i<length dcs. name (dcs ! i) = g_name g \<longrightarrow>
          (\<exists>d'. dayViewOf k (dcs[i := (dcs ! i)\<lparr>paymentStatus := ''unpaid''\<rparr>]) = Inr d'
             \<and> (\<exists>g'\<in>set (customerGroups d'). g_name g' = g_name g
                   \<and> (dcs ! i)\<lparr>paymentStatus := ''unpaid''\<rparr> \<in> set (g_entries g'))
             \<and> (\<forall>g'\<in>set (customerGroups d'). g_name g' = g_name g \<longrightarrow> \<not> g_allPaid g')))"
proof (intro conjI allI impI)
  have "g_allPaid g \<longleftrightarrow> (\<forall>e\<in>set (g_entries g). paymentStatus e \<noteq> ''unpaid'')"
    using assms(1,2) by (rule dayView_allPaid)
  also have "\<dots> \<longleftrightarrow> (\<forall>e\<in>set (g_entries g). paymentStatus e = ''paid'')"
    using assms(3) by auto
  finally show "g_allPaid g \<longleftrightarrow> (\<forall>e\<in>set (g_entries g). paymentStatus e = ''paid'')" .
next
  fix i assume i: "i < length dcs" and n: "name (dcs ! i) = g_name g"
  from dayView_flip[OF assms(1) i]
  show "\<exists>d'. dayViewOf k (dcs[i := (dcs ! i)\<lparr>paymentStatus := ''unpaid''\<rparr>]) = Inr d'
             \<and> (\<exists>g'\<in>set (customerGroups d'). g_name g' = g_name g
                   \<and> (dcs ! i)\<lparr>paymentStatus := ''unpaid''\<rparr> \<in> set (g_entries g'))
             \<and> (\<forall>g'\<in>set (customerGroups d'). g_name g' = g_name g \<longrightarrow> \<not> g_allPaid g')"
    unfolding n .
qed

theorem allPaid_iff_every_entry_paid_witness:
  "dayViewOf 0
     [\<lparr>name = ''A'', goodsType = ''X'', carCount = Finite 2, amount = ''100'',
       paymentStatus = ''paid'', c_id = Finite 2, createdAt = 1\<rparr>,
      \<lparr>name = ''A'', goodsType = ''X'', carCount = Finite 1, amount = ''50'',
       paymentStatus = ''paid'', c_id = Finite 1, createdAt = 0\<rparr>]
   = Inr \<lparr>dateKey = 0, customerGroups =
       [\<lparr>g_name = ''A'', g_goodsType = ''X'', g_totalCars = Finite 3,
         g_totalAmount = Finite 150,
         g_entries =
     [\<lparr>name = ''A'', goodsType = ''X'', carCount = Finite 2, amount = ''100'',
       paymentStatus = ''paid'', c_id = Finite 2, createdAt = 1\<rparr>,
      \<lparr>name = ''A'', goodsType = ''X'', carCount = Finite 1, amount = ''50'',
       paymentStatus = ''paid'', c_id = Finite 1, createdAt = 0\<rparr>],
         g_allPaid = True\<rparr>],
      totalDayAmount = Finite 150\<rparr>
   \<and> dayViewOf 0
     ([\<lparr>name = ''A'', goodsType = ''X'', carCount = Finite 2, amount = ''100'',
       paymentStatus = ''paid'', c_id = Finite 2, createdAt = 1\<rparr>,
      \<lparr>name = ''A'', goodsType = ''X'', carCount = Finite 1, amount = ''50'',
       paymentStatus = ''paid'', c_id = Finite 1, createdAt = 0\<rparr>]
      [1 := \<lparr>name = ''A'', goodsType = ''X'', carCount = Finite 1, amount = ''50'',
       paymentStatus = ''paid'', c_id = Finite 1, createdAt = 0\<rparr>
        \<lparr>paymentStatus := ''unpaid''\<rparr>])
   = Inr \<lparr>dateKey = 0, customerGroups =
       [\<lparr>g_name = ''A'', g_goodsType = ''X'', g_totalCars = Finite 3,
         g_totalAmount = Finite 150,
         g_entries =
     [\<lparr>name = ''A'', goodsType = ''X'', carCount = Finite 2, amount = ''100'',
       paymentStatus = ''paid'', c_id = Finite 2, createdAt = 1\<rparr>,
      \<lparr>name = ''A'', goodsType = ''X'', carCount = Finite 1, amount = ''50'',
       paymentStatus = ''unpaid'', c_id = Finite 1, createdAt = 0\<rparr>],
         g_allPaid = False\<rparr>],
      totalDayAmount = Finite 150\<rparr>"
proof -
  have h1: "dayViewOf 0
     [\<lparr>name = ''A'', goodsType = ''X'', carCount = Finite 2, amount = ''100'',
       paymentStatus = ''paid'', c_id = Finite 2, createdAt = 1\<rparr>,
      \<lparr>name = ''A'', goodsType = ''X'', carCount = Finite 1, amount = ''50'',
       paymentStatus = ''paid'', c_id = Finite 1, createdAt = 0\<rparr>]
   = Inr \<lparr>dateKey = 0, customerGroups =
       [\<lparr>g_name = ''A'', g_goodsType = ''X'', g_totalCars = Finite 3,
         g_totalAmount = Finite 150,
         g_entries =
     [\<lparr>name = ''A'', goodsType = ''X'', carCount = Finite 2, amount = ''100'',
       paymentStatus = ''paid'', c_id = Finite 2, createdAt = 1\<rparr>,
      \<lparr>name = ''A'', goodsType = ''X'', carCount = Finite 1, amount = ''50'',
       paymentStatus = ''paid'', c_id = Finite 1, createdAt = 0\<rparr>],
         g_allPaid = True\<rparr>],
      totalDayAmount = Finite 150\<rparr>"
    by (simp add: view_eval parse_eval double_eval)
  have h2: "\<lparr>g_name = ''A'', g_goodsType = ''X'', g_totalCars = Finite 3,
         g_totalAmount = Finite 150,
         g_entries =
     [\<lparr>name = ''A'', goodsType = ''X'', carCount = Finite 2, amount = ''100'',
       paymentStatus = ''paid'', c_id = Finite 2, createdAt = 1\<rparr>,
      \<lparr>name = ''A'', goodsType = ''X'', carCount = Finite 1, amount = ''50'',
       paymentStatus = ''paid'', c_id = Finite 1, createdAt = 0\<rparr>],
         g_allPaid = True\<rparr>
    \<in> set (customerGroups \<lparr>dateKey = 0, customerGroups =
       [\<lparr>g_name = ''A'', g_goodsType = ''X'', g_totalCars = Finite 3,
         g_totalAmount = Finite 150,
         g_entries =
     [\<lparr>name = ''A'', goodsType = ''X'', carCount = Finite 2, amount = ''100'',
       paymentStatus = ''paid'', c_id = Finite 2, createdAt = 1\<rparr>,
      \<lparr>name = ''A'', goodsType = ''X'', carCount = Finite 1, amount = ''50'',
       paymentStatus = ''paid'', c_id = Finite 1, createdAt = 0\<rparr>],
         g_allPaid = True\<rparr>],
      totalDayAmount = Finite 150\<rparr>)"
    by simp
  have h3: "\<forall>e\<in>set (g_entries \<lparr>g_name = ''A'', g_goodsType = ''X'', g_totalCars = Finite 3,
         g_totalAmount = Finite 150,
         g_entries =
     [\<lparr>name = ''A'', goodsType = ''X'', carCount = Finite 2, amount = ''100'',
       paymentStatus = ''paid'', c_id = Finite 2, createdAt = 1\<rparr>,
      \<lparr>name = ''A'', goodsType = ''X'', carCount = Finite 1, amount = ''50'',
       paymentStatus = ''paid'', c_id = Finite 1, createdAt = 0\<rparr>],
         g_allPaid = True\<rparr>).
      paymentStatus e = ''paid'' \<or> paymentStatus e = ''unpaid''"
    by simp
  from allPaid_iff_every_entry_paid[OF h1 h2 h3] h1 show ?thesis
    by (simp add: view_eval parse_eval double_eval)
qed

section \<open>The grouping of the PDF report\<close>

lemma groupedCustomers_snoc:
  "groupedCustomers (cs @ [c]) =
     (case groupedCustomers cs of Inl e \<Rightarrow> Inl e | Inr obj \<Rightarrow> groupedCustomersStep obj c)"
  by (simp add: groupedCustomers_def reduceE_append split: sum.splits)

lemma groupedCustomers_get:
  "groupedCustomers cs = Inr obj \<Longrightarrow>
     distinct (map fst obj) \<and>
     (\<forall>n. (n \<in> name ` set cs \<longrightarrow>
            (\<exists>g. mapGet obj n = Some g \<and> r_name g = n
               \<and> r_entries g = filter (\<lambda>c. name c = n) cs))
        \<and> (n \<notin> name ` set cs \<longrightarrow> mapGet obj n = None))"
proof (induction cs arbitrary: obj rule: rev_induct)
  case Nil
  then show ?case by (simp add: groupedCustomers_def)
next
  case (snoc c cs)
  from snoc.prems obtain obj0 where obj0: "groupedCustomers cs = Inr obj0"
    and step: "groupedCustomersStep obj0 c = Inr obj"
    by (auto simp: groupedCustomers_snoc split: sum.splits)
  from snoc.IH[OF obj0] have d: "distinct (map fst obj0)"
    and some: "\<And>n. n \<in> name ` set cs \<Longrightarrow>
        \<exists>g. mapGet obj0 n = Some g \<and> r_name g = n \<and> r_entries g = filter (\<lambda>c. name c = n) cs"
    and none: "\<And>n. n \<notin> name ` set cs \<Longrightarrow> mapGet obj0 n = None"
    by auto
  have "\<exists>g. obj = mapSet (name c) g obj0 \<and> r_name g = name c
      \<and> r_entries g = filter (\<lambda>x. name x = name c) (cs @ [c])"
  proof (cases "name c \<in> name ` set cs")
    case True
    from some[OF True] obtain g where g: "mapGet obj0 (name c) = Some g" "r_name g = name c"
      "r_entries g = filter (\<lambda>x. name x = name c) cs" by blast
    with step show ?thesis by (auto simp: groupedCustomersStep_def addToReportGroup_def)
  next
    case False
    then have "filter (\<lambda>x. name x = name c) cs = []"
      unfolding filter_empty_conv by (metis imageI)
    with step none[OF False] show ?thesis
      by (auto simp: groupedCustomersStep_def addToReportGroup_def split: if_splits)
  qed
  then obtain g where obj: "obj = mapSet (name c) g obj0" and g: "r_name g = name c"
    "r_entries g = filter (\<lambda>x. name x = name c) (cs @ [c])" by blast
  show ?case
  proof (intro conjI allI impI)
    show "distinct (map fst obj)" unfolding obj using d by (rule distinct_mapSet)
  next
    fix n assume "n \<in> name ` set (cs @ [c])"
    then show "\<exists>g. mapGet obj n = Some g \<and> r_name g = n
        \<and> r_entries g = filter (\<lambda>c. name c = n) (cs @ [c])"
      unfolding obj using g some[of n] by (auto simp: mapGet_mapSet)
  next
    fix n assume "n \<notin> name ` set (cs @ [c])"
    then show "mapGet obj n = None"
      unfolding obj using none[of n] by (auto simp: mapGet_mapSet)
  qed
qed

lemma reportGroups_char:
  assumes "reportGroups cs = Inr gs"
  shows "distinct (map r_name gs)"
    and "\<And>g. g \<in> set gs \<Longrightarrow> r_entries g = filter (\<lambda>c. name c = r_name g) cs"
    and "\<And>c. c \<in> set cs \<Longrightarrow> \<exists>g\<in>set gs. r_name g = name c"
proof -
  from assms obtain obj where obj: "groupedCustomers cs = Inr obj" and gs: "gs = objectValues obj"
    by (auto simp: reportGroups_def split: sum.splits)
  from groupedCustomers_get[OF obj] have d: "distinct (map fst obj)"
    and some: "\<And>n. n \<in> name ` set cs \<Longrightarrow>
        \<exists>g. mapGet obj n = Some g \<and> r_name g = n \<and> r_entries g = filter (\<lambda>c. name c = n) cs"
    and none: "\<And>n. n \<notin> name ` set cs \<Longrightarrow> mapGet obj n = None"
    by auto
  have mem: "r_name (snd q) = fst q \<and> r_entries (snd q) = filter (\<lambda>c. name c = fst q) cs"
    if "q \<in> set obj" for q
  proof -
    from mapGet_distinct_mem[OF d, of "fst q" "snd q"] that
    have q: "mapGet obj (fst q) = Some (snd q)" by simp
    then have "fst q \<in> name ` set cs" using none[of "fst q"] by auto
    from some[OF this] q show ?thesis by auto
  qed
  have "mset (map r_name gs) = mset (map r_name (map snd obj))"
    unfolding gs using mset_objectValues[of obj] by (metis mset_map)
  also have "map r_name (map snd obj) = map fst obj"
    using mem by (simp add: comp_def cong: map_cong)
  finally show "distinct (map r_name gs)"
    using d by (metis mset_eq_imp_distinct_iff)
  show "r_entries g = filter (\<lambda>c. name c = r_name g) cs" if "g \<in> set gs" for g
    using that mem unfolding gs set_objectValues by auto
  show "\<exists>g\<in>set gs. r_name g = name c" if "c \<in> set cs" for c
  proof -
    from that some[of "name c"] obtain g where g: "mapGet obj (name c) = Some g" "r_name g = name c"
      by auto
    from mapGet_Some_mem[OF g(1)] have "g \<in> set gs" unfolding gs set_objectValues by force
    with g(2) show ?thesis by blast
  qed
qed

text \<open>
  C5, as the spec states it, fails: the report groups by name alone. Two transactions
  of customer A, created on different days, are entries of one group of the report.
\<close>

theorem report_grouping_counterexample:
  "formatDate (\<lambda>t. 0) 86400000 \<noteq> formatDate (\<lambda>t. 0) 0
   \<and> reportGroups
     [\<lparr>name = ''A'', goodsType = ''X'', carCount = Finite 2, amount = ''100'',
       paymentStatus = ''paid'', c_id = Finite 3, createdAt = 86400000\<rparr>,
      \<lparr>name = ''B'', goodsType = ''Y'', carCount = Finite 1, amount = ''50'',
       paymentStatus = ''unpaid'', c_id = Finite 2, createdAt = 86400000\<rparr>,
      \<lparr>name = ''A'', goodsType = ''X'', carCount = Finite 1, amount = ''30'',
       paymentStatus = ''paid'', c_id = Finite 1, createdAt = 0\<rparr>]
   = Inr
     [\<lparr>r_name = ''A'', r_goodsType = ''X'', r_totalCars = Finite 3,
         r_totalAmount = Finite 130,
         r_entries =
           [\<lparr>name = ''A'', goodsType = ''X'', carCount = Finite 2, amount = ''100'',
       paymentStatus = ''paid'', c_id = Finite 3, createdAt = 86400000\<rparr>,
            \<lparr>name = ''A'', goodsType = ''X'', carCount = Finite 1, amount = ''30'',
       paymentStatus = ''paid'', c_id = Finite 1, createdAt = 0\<rparr>]\<rparr>,
      \<lparr>r_name = ''B'', r_goodsType = ''Y'', r_totalCars = Finite 1,
         r_totalAmount = Finite 50,
         r_entries =
           [\<lparr>name = ''B'', goodsType = ''Y'', carCount = Finite 1, amount = ''50'',
       paymentStatus = ''unpaid'', c_id = Finite 2, createdAt = 86400000\<rparr>]\<rparr>]"
  by (simp add: reportGroups_def groupedCustomers_def groupedCustomersStep_def
      addToReportGroup_def objectValues_def objectPrototypeKeys_def isArrayIndex_def
      formatDate_def parse_eval double_eval)

text \<open>
  C5, amended. The grouping of the PDF report has one level: the customer transactions
  are partitioned by exact customer name, whatever their creation day. The groups have
  distinct names, the entries of a group are all the transactions with its name, in list
  order, and so two transactions with the same name are in the same group.
\<close>

theorem report_groups_by_name_only:
  assumes "reportGroups cs = Inr gs"
  shows "distinct (map r_name gs)
    \<and> (\<forall>g\<in>set gs. r_entries g = filter (\<lambda>c. name c = r_name g) cs)
    \<and> (\<forall>c1\<in>set cs. \<forall>c2\<in>set cs. name c1 = name c2 \<longrightarrow>
          (\<exists>g\<in>set gs. c1 \<in> set (r_entries g) \<and> c2 \<in> set (r_entries g)))"
proof (intro conjI ballI impI)
  show "distinct (map r_name gs)" using reportGroups_char(1)[OF assms] .
  show "r_entries g = filter (\<lambda>c. name c = r_name g) cs" if "g \<in> set gs" for g
    using reportGroups_char(2)[OF assms that] .
  fix c1 c2 assume c: "c1 \<in> set cs" "c2 \<in> set cs" "name c1 = name c2"
  from reportGroups_char(3)[OF assms c(1)] obtain g where g: "g \<in> set gs" "r_name g = name c1"
    by blast
  from reportGroups_char(2)[OF assms g(1)] c g(2)
  have "c1 \<in> set (r_entries g) \<and> c2 \<in> set (r_entries g)" by simp
  with g(1) show "\<exists>g\<in>set gs. c1 \<in> set (r_entries g) \<and> c2 \<in> set (r_entries g)" by blast
qed

theorem report_groups_by_name_only_witness:
  "reportGroups
     [\<lparr>name = ''A'', goodsType = ''X'', carCount = Finite 2, amount = ''100'',
       paymentStatus = ''paid'', c_id = Finite 3, createdAt = 86400000\<rparr>,
      \<lparr>name = ''B'', goodsType = ''Y'', carCount = Finite 1, amount = ''50'',
       paymentStatus = ''unpaid'', c_id = Finite 2, createdAt = 86400000\<rparr>,
      \<lparr>name = ''A'', goodsType = ''X'', carCount = Finite 1, amount = ''30'',
       paymentStatus = ''paid'', c_id = Finite 1, createdAt = 0\<rparr>]
   = Inr
     [\<lparr>r_name = ''A'', r_goodsType = ''X'', r_totalCars = Finite 3,
         r_totalAmount = Finite 130,
         r_entries =
           [\<lparr>name = ''A'', goodsType = ''X'', carCount = Finite 2, amount = ''100'',
       paymentStatus = ''paid'', c_id = Finite 3, createdAt = 86400000\<rparr>,
            \<lparr>name = ''A'', goodsType = ''X'', carCount = Finite 1, amount = ''30'',
       paymentStatus = ''paid'', c_id = Finite 1, createdAt = 0\<rparr>]\<rparr>,
      \<lparr>r_name = ''B'', r_goodsType = ''Y'', r_totalCars = Finite 1,
         r_totalAmount = Finite 50,
         r_entries =
           [\<lparr>name = ''B'', goodsType = ''Y'', carCount = Finite 1, amount = ''50'',
       paymentStatus = ''unpaid'', c_id = Finite 2, createdAt = 86400000\<rparr>]\<rparr>]
   \<and> distinct (map r_name
     [\<lparr>r_name = ''A'', r_goodsType = ''X'', r_totalCars = Finite 3,
         r_totalAmount = Finite 130,
         r_entries =
           [\<lparr>name = ''A'', goodsType = ''X'', carCount = Finite 2, amount = ''100'',
       paymentStatus = ''paid'', c_id = Finite 3, createdAt = 86400000\<rparr>,
            \<lparr>name = ''A'', goodsType = ''X'', carCount = Finite 1, amount = ''30'',
       paymentStatus = ''paid'', c_id = Finite 1, createdAt = 0\<rparr>]\<rparr>,
      \<lparr>r_name = ''B'', r_goodsType = ''Y'', r_totalCars = Finite 1,
         r_totalAmount = Finite 50,
         r_entries =
           [\<lparr>name = ''B'', goodsType = ''Y'', carCount = Finite 1, amount = ''50'',
       paymentStatus = ''unpaid'', c_id = Finite 2, createdAt = 86400000\<rparr>]\<rparr>])"
proof -
  have h: "reportGroups
     [\<lparr>name = ''A'', goodsType = ''X'', carCount = Finite 2, amount = ''100'',
       paymentStatus = ''paid'', c_id = Finite 3, createdAt = 86400000\<rparr>,
      \<lparr>name = ''B'', goodsType = ''Y'', carCount = Finite 1, amount = ''50'',
       paymentStatus = ''unpaid'', c_id = Finite 2, createdAt = 86400000\<rparr>,
      \<lparr>name = ''A'', goodsType = ''X'', carCount = Finite 1, amount = ''30'',
       paymentStatus = ''paid'', c_id = Finite 1, createdAt = 0\<rparr>]
   = Inr
     [\<lparr>r_name = ''A'', r_goodsType = ''X'', r_totalCars = Finite 3,
         r_totalAmount = Finite 130,
         r_entries =
           [\<lparr>name = ''A'', goodsType = ''X'', carCount = Finite 2, amount = ''100'',
       paymentStatus = ''paid'', c_id = Finite 3, createdAt = 86400000\<rparr>,
            \<lparr>name = ''A'', goodsType = ''X'', carCount = Finite 1, amount = ''30'',
       paymentStatus = ''paid'', c_id = Finite 1, createdAt = 0\<rparr>]\<rparr>,
      \<lparr>r_name = ''B'', r_goodsType = ''Y'', r_totalCars = Finite 1,
         r_totalAmount = Finite 50,
         r_entries =
           [\<lparr>name = ''B'', goodsType = ''Y'', carCount = Finite 1, amount = ''50'',
       paymentStatus = ''unpaid'', c_id = Finite 2, createdAt = 86400000\<rparr>]\<rparr>]"
    by (simp add: reportGroups_def groupedCustomers_def groupedCustomersStep_def
      addToReportGroup_def objectValues_def objectPrototypeKeys_def isArrayIndex_def
      parse_eval double_eval)
  from report_groups_by_name_only[OF h] h show ?thesis by simp
qed

end
